theory Spec2Isabelle
  imports Main
begin

section \<open>Memory, pointers and the allocator\<close>

text \<open>
  The container of \<^verbatim>\<open>fakeVector.h\<close> manages a raw buffer through pointers, and several
  of its members are pointers that are recomputed (or not) after each change. The model
  therefore keeps an explicit store: a pointer is a block together with an offset counted
  in elements, and a block is a list of slots, each raw (allocated, nothing constructed)
  or live (holding a value).
\<close>

datatype pointer = Ptr (blk: "nat option") (off: int)

definition nullptr :: pointer where
  "nullptr = Ptr None 0"

definition ptr_add :: "pointer \<Rightarrow> int \<Rightarrow> pointer" where
  "ptr_add p n = Ptr (blk p) (off p + n)"

definition ptr_diff :: "pointer \<Rightarrow> pointer \<Rightarrow> int" where
  "ptr_diff p q = off p - off q"

text \<open>Ordering of two pointers into the same buffer, and \<^verbatim>\<open>std::min\<close> on them
  (\<^verbatim>\<open>std::min(a, b)\<close> is \<^verbatim>\<open>(b < a) ? b : a\<close>).\<close>

definition ptr_less :: "pointer \<Rightarrow> pointer \<Rightarrow> bool" where
  "ptr_less p q = (off p < off q)"

definition ptr_min :: "pointer \<Rightarrow> pointer \<Rightarrow> pointer" where
  "ptr_min a b = (if ptr_less b a then b else a)"

datatype 'a slot = Raw | Live 'a

datatype error = AllocationError | OutOfRange | MemoryFault | IllFormed

text \<open>
  A call either returns a value or raises; in both cases the state it leaves behind is
  part of the outcome, so that what a caller observes after a raised error can be stated.
\<close>

datatype ('r, 's) outcome = Return 'r 's | Raise error 's

fun bind :: "('r, 's) outcome \<Rightarrow> ('r \<Rightarrow> 's \<Rightarrow> ('q, 's) outcome) \<Rightarrow> ('q, 's) outcome" where
  "bind (Return r s) f = f r s"
| "bind (Raise e s) f = Raise e s"

text \<open>
  A member of the class template is instantiated as a whole when a program calls it.
  Where the body of a member holds a call that cannot be compiled, every program that
  calls the member is refused by the compiler: there is no run of it. Such a member is
  \<open>ill_formed\<close> here: the call is refused and the state is the one it was made in.
\<close>

definition ill_formed :: "'s \<Rightarrow> ('r, 's) outcome" where
  "ill_formed s = Raise IllFormed s"

record 'a heap =
  cells :: "nat \<Rightarrow> 'a slot list option"
  fresh :: nat
  avail :: nat

definition empty_heap :: "nat \<Rightarrow> 'a heap" where
  "empty_heap n = \<lparr>cells = (\<lambda>b. None), fresh = 0, avail = n\<rparr>"

text \<open>Reading through a pointer: \<open>None\<close> when the pointer is not inside a live block.\<close>

definition load :: "'a heap \<Rightarrow> pointer \<Rightarrow> 'a slot option" where
  "load h p =
     (case blk p of
        None \<Rightarrow> None
      | Some b \<Rightarrow>
          (case cells h b of
             None \<Rightarrow> None
           | Some cs \<Rightarrow>
               if 0 \<le> off p \<and> off p < int (length cs) then Some (cs ! nat (off p)) else None))"

definition store :: "pointer \<Rightarrow> 'a slot \<Rightarrow> 'a heap \<Rightarrow> (unit, 'a heap) outcome" where
  "store p x h =
     (case blk p of
        None \<Rightarrow> Raise MemoryFault h
      | Some b \<Rightarrow>
          (case cells h b of
             None \<Rightarrow> Raise MemoryFault h
           | Some cs \<Rightarrow>
               if 0 \<le> off p \<and> off p < int (length cs)
               then Return () (h\<lparr>cells := (cells h)(b \<mapsto> cs[nat (off p) := x])\<rparr>)
               else Raise MemoryFault h))"

text \<open>
  Modelled from the spec: the allocator capability (\<^verbatim>\<open>std::allocator\<close>, which is not
  part of the repository). \<open>allocate n\<close> hands out raw storage for \<open>n\<close> slots in a block of
  its own and fails with \<open>AllocationError\<close> when the memory cannot be obtained, here when
  \<open>n\<close> exceeds the slots still available; the block is never the null pointer, also for
  \<open>n = 0\<close>, as with \<^verbatim>\<open>operator new\<close>. \<open>deallocate\<close> releases a block and accepts the null
  pointer. \<open>construct\<close> writes a value into a slot. \<open>destroy\<close> never fails: it ends the
  life of the element in a slot of a live block and has no effect elsewhere.
\<close>

definition allocate :: "nat \<Rightarrow> 'a heap \<Rightarrow> (pointer, 'a heap) outcome" where
  "allocate n h =
     (if n \<le> avail h
      then Return (Ptr (Some (fresh h)) 0)
             (h\<lparr>cells := (cells h)(fresh h \<mapsto> replicate n Raw),
                fresh := Suc (fresh h), avail := avail h - n\<rparr>)
      else Raise AllocationError h)"

definition deallocate :: "pointer \<Rightarrow> nat \<Rightarrow> 'a heap \<Rightarrow> (unit, 'a heap) outcome" where
  "deallocate p n h =
     (case blk p of
        None \<Rightarrow> Return () h
      | Some b \<Rightarrow>
          (case cells h b of
             None \<Rightarrow> Raise MemoryFault h
           | Some cs \<Rightarrow>
               if off p = 0
               then Return () (h\<lparr>cells := (cells h)(b := None), avail := avail h + length cs\<rparr>)
               else Raise MemoryFault h))"

definition construct :: "pointer \<Rightarrow> 'a \<Rightarrow> 'a heap \<Rightarrow> (unit, 'a heap) outcome" where
  "construct p x h = store p (Live x) h"

definition destroy :: "pointer \<Rightarrow> 'a heap \<Rightarrow> 'a heap" where
  "destroy p h = (case store p Raw h of Return u h' \<Rightarrow> h' | Raise e h' \<Rightarrow> h)"

section \<open>Integer conversions\<close>

text \<open>
  \<^verbatim>\<open>size_type\<close> is \<^verbatim>\<open>size_t\<close> (64 bits, unsigned) and \<^verbatim>\<open>difference_type\<close> is
  \<^verbatim>\<open>ptrdiff_t\<close>. Sizes are natural numbers here; the two places where the source leaves
  the natural numbers are written out: the narrowing \<^verbatim>\<open>static_cast<int>\<close> (32 bits, two's
  complement), and the conversion of a signed value to \<^verbatim>\<open>size_type\<close>, which also covers
  a decrement below zero. A count that only grows is bounded by the length of a block and
  is not reduced modulo \<open>2 ^ 64\<close>; loop counters are natural numbers.
\<close>

definition static_cast_int :: "nat \<Rightarrow> int" where
  "static_cast_int n =
     (let m = int n mod 2 ^ 32 in if m < 2 ^ 31 then m else m - 2 ^ 32)"

definition size_type_of_int :: "int \<Rightarrow> nat" where
  "size_type_of_int i = nat (i mod 2 ^ 64)"

section \<open>The container\<close>

text \<open>
  The data members of \<^verbatim>\<open>fake::vector\<close>, in declaration order (the allocator has no state
  of its own: the heap plays its part). A trailing underscore is not available for names
  here, so \<^verbatim>\<open>capacity_\<close> is \<open>m_capacity\<close>, and so on.
\<close>

record vector =
  m_capacity :: nat
  m_size :: nat
  m_array :: pointer
  m_array_start :: pointer
  m_array_end :: pointer
  m_array_range_end :: pointer

type_synonym 'a state = "'a heap \<times> vector"

fun lift :: "vector \<Rightarrow> ('r, 'a heap) outcome \<Rightarrow> ('r, 'a state) outcome" where
  "lift v (Return r h) = Return r (h, v)"
| "lift v (Raise e h) = Raise e (h, v)"

definition set_pointers :: "vector \<Rightarrow> vector" where
  "set_pointers v =
     v\<lparr>m_array_start := m_array v,
       m_array_end := ptr_add (m_array v) (int (m_size v)),
       m_array_range_end := ptr_add (m_array v) (int (m_capacity v))\<rparr>"

subsection \<open>Iterators and observers\<close>

definition begin_v :: "vector \<Rightarrow> pointer" where
  "begin_v v = m_array_start v"

definition end_v :: "vector \<Rightarrow> pointer" where
  "end_v v = m_array_end v"

definition cbegin :: "vector \<Rightarrow> pointer" where
  "cbegin v = m_array_start v"

definition cend :: "vector \<Rightarrow> pointer" where
  "cend v = m_array_end v"

definition size_v :: "vector \<Rightarrow> nat" where
  "size_v v = m_size v"

definition capacity :: "vector \<Rightarrow> nat" where
  "capacity v = m_capacity v"

definition empty_v :: "vector \<Rightarrow> bool" where
  "empty_v v = (m_size v = 0)"

definition data_v :: "vector \<Rightarrow> pointer" where
  "data_v v = m_array v"

subsection \<open>Private helpers\<close>

text \<open>
  \<^verbatim>\<open>construct_elements(begin, end, destination)\<close> on a range of the store: the loop
  runs \<open>end - begin\<close> times (not at all when the difference is not positive), reading
  \<open>*begin\<close> and constructing it at \<open>destination + i\<close>, front to back. A raw slot that is
  copied leaves a raw slot.
\<close>

fun construct_loop :: "nat \<Rightarrow> int \<Rightarrow> pointer \<Rightarrow> pointer \<Rightarrow> 'a heap \<Rightarrow> (unit, 'a heap) outcome" where
  "construct_loop 0 i begin destination h = Return () h"
| "construct_loop (Suc k) i begin destination h =
     (case load h begin of
        None \<Rightarrow> Raise MemoryFault h
      | Some x \<Rightarrow>
          bind (store (ptr_add destination i) x h)
            (\<lambda>u h'. construct_loop k (i + 1) (ptr_add begin 1) destination h'))"

definition construct_elements :: "pointer \<Rightarrow> pointer \<Rightarrow> pointer \<Rightarrow> 'a heap \<Rightarrow> (unit, 'a heap) outcome" where
  "construct_elements begin end destination h =
     construct_loop (nat (ptr_diff end begin)) 0 begin destination h"

text \<open>The same template on a range owned by the caller (an initializer list, or input
  iterators that do not point into the store): the range is the list of its values.\<close>

fun construct_elements_range :: "'a list \<Rightarrow> int \<Rightarrow> pointer \<Rightarrow> 'a heap \<Rightarrow> (unit, 'a heap) outcome" where
  "construct_elements_range [] i destination h = Return () h"
| "construct_elements_range (x # xs) i destination h =
     bind (construct (ptr_add destination i) x h)
       (\<lambda>u h'. construct_elements_range xs (i + 1) destination h')"

text \<open>\<^verbatim>\<open>construct_elements(destination, count, value)\<close>.\<close>

fun construct_fill_loop :: "nat \<Rightarrow> int \<Rightarrow> pointer \<Rightarrow> 'a \<Rightarrow> 'a heap \<Rightarrow> (unit, 'a heap) outcome" where
  "construct_fill_loop 0 i destination val h = Return () h"
| "construct_fill_loop (Suc k) i destination val h =
     bind (construct (ptr_add destination i) val h)
       (\<lambda>u h'. construct_fill_loop k (i + 1) destination val h')"

definition construct_elements_fill :: "pointer \<Rightarrow> nat \<Rightarrow> 'a \<Rightarrow> 'a heap \<Rightarrow> (unit, 'a heap) outcome" where
  "construct_elements_fill destination count val h = construct_fill_loop count 0 destination val h"

fun destroy_loop :: "nat \<Rightarrow> int \<Rightarrow> pointer \<Rightarrow> 'a heap \<Rightarrow> 'a heap" where
  "destroy_loop 0 i start h = h"
| "destroy_loop (Suc k) i start h = destroy_loop k (i + 1) start (destroy (ptr_add start i) h)"

definition destroy_elements :: "pointer \<Rightarrow> nat \<Rightarrow> 'a heap \<Rightarrow> 'a heap" where
  "destroy_elements start n h = destroy_loop n 0 start h"

definition increase_array :: "nat \<Rightarrow> 'a state \<Rightarrow> (unit, 'a state) outcome" where
  "increase_array new_size = (\<lambda>(h, v).
     bind (lift v (allocate new_size h)) (\<lambda>new_array (h1, v).
     bind (lift v (construct_elements (begin_v v)
                     (ptr_min (end_v v) (ptr_add (begin_v v) (int new_size))) new_array h1))
       (\<lambda>u (h2, v).
     bind (lift v (deallocate (m_array v) (m_capacity v) (destroy_elements (m_array v) (m_size v) h2)))
       (\<lambda>u (h3, v).
     Return () (h3, set_pointers (v\<lparr>m_array := new_array, m_capacity := new_size\<rparr>))))))"


subsection \<open>Constructors\<close>

text \<open>The member initialisers shared by the constructors: \<^verbatim>\<open>capacity_\<close>, \<^verbatim>\<open>size_\<close> and
  \<^verbatim>\<open>array_\<close> are given, the three range pointers are computed from them.\<close>

definition members :: "nat \<Rightarrow> nat \<Rightarrow> pointer \<Rightarrow> vector" where
  "members c s a =
     \<lparr>m_capacity = c, m_size = s, m_array = a, m_array_start = a,
      m_array_end = ptr_add a (int s), m_array_range_end = ptr_add a (int c)\<rparr>"

definition vector_default :: vector where
  "vector_default = members 0 0 nullptr"

definition vector_n :: "nat \<Rightarrow> 'a heap \<Rightarrow> (vector, 'a heap) outcome" where
  "vector_n n h = bind (allocate n h) (\<lambda>a h1. Return (members n n a) h1)"

definition vector_fill :: "nat \<Rightarrow> 'a \<Rightarrow> 'a heap \<Rightarrow> (vector, 'a heap) outcome" where
  "vector_fill n val h =
     bind (allocate n h) (\<lambda>a h1.
     bind (construct_elements_fill a n val h1) (\<lambda>u h2. Return (members n n a) h2))"

definition vector_range :: "'a list \<Rightarrow> 'a heap \<Rightarrow> (vector, 'a heap) outcome" where
  "vector_range xs h =
     bind (allocate (length xs) h) (\<lambda>a h1.
     bind (construct_elements_range xs 0 (m_array_start (members (length xs) (length xs) a)) h1)
       (\<lambda>u h2. Return (members (length xs) (length xs) a) h2))"

definition vector_copy :: "vector \<Rightarrow> 'a heap \<Rightarrow> (vector, 'a heap) outcome" where
  "vector_copy x h =
     bind (allocate (capacity x) h) (\<lambda>a h1.
     bind (construct_elements (cbegin x) (cend x)
             (m_array_start (members (capacity x) (size_v x) a)) h1)
       (\<lambda>u h2. Return (members (capacity x) (size_v x) a) h2))"

text \<open>The move constructor returns the new container and what is left of its argument.\<close>

definition vector_move :: "vector \<Rightarrow> vector \<times> vector" where
  "vector_move x =
     (members (m_capacity x) (m_size x) (m_array x),
      set_pointers (x\<lparr>m_array := nullptr, m_size := 0, m_capacity := 0\<rparr>))"

definition vector_il :: "'a list \<Rightarrow> 'a heap \<Rightarrow> (vector, 'a heap) outcome" where
  "vector_il il h =
     bind (allocate (length il) h) (\<lambda>a h1.
     bind (construct_elements_range il 0 (m_array_start (members (length il) (length il) a)) h1)
       (\<lambda>u h2. Return (members (length il) (length il) a) h2))"

subsection \<open>Assignment operators\<close>

text \<open>\<^verbatim>\<open>operator=(const vector& x)\<close>; \<open>x\<close> is another object than the one assigned to.\<close>

definition copy_assign :: "vector \<Rightarrow> 'a state \<Rightarrow> (unit, 'a state) outcome" where
  "copy_assign x = (\<lambda>(h, v).
     if m_capacity v \<ge> m_size x
     then (let v1 = set_pointers (v\<lparr>m_size := size_v x\<rparr>)
           in lift v1 (construct_elements (cbegin x) (cend x) (m_array_start v1) h))
     else
       bind (lift v (deallocate (m_array v) (m_capacity v)
                      (destroy_elements (m_array v) (m_size v) h)))
         (\<lambda>u (h1, v).
       bind (lift (v\<lparr>m_capacity := size_v x, m_size := size_v x\<rparr>) (allocate (size_v x) h1))
         (\<lambda>a (h2, v1).
       (let v2 = set_pointers (v1\<lparr>m_array := a\<rparr>)
        in lift v2 (construct_elements (cbegin x) (cend x) (m_array_start v2) h2)))))"

text \<open>\<^verbatim>\<open>operator=(vector&& x)\<close>: the state holds both containers.\<close>

definition move_assign :: "'a heap \<times> vector \<times> vector \<Rightarrow> (unit, 'a heap \<times> vector \<times> vector) outcome" where
  "move_assign = (\<lambda>(h, v, x).
     case deallocate (m_array v) (m_capacity v) (destroy_elements (m_array v) (m_capacity v) h) of
       Raise e h1 \<Rightarrow> Raise e (h1, v, x)
     | Return u h1 \<Rightarrow>
         Return ()
           (h1,
            set_pointers (v\<lparr>m_size := m_size x, m_capacity := m_capacity x, m_array := m_array x\<rparr>),
            set_pointers (x\<lparr>m_size := 0, m_capacity := 0, m_array := nullptr\<rparr>)))"

definition il_assign :: "'a list \<Rightarrow> 'a state \<Rightarrow> (unit, 'a state) outcome" where
  "il_assign il = (\<lambda>(h, v).
     if m_capacity v \<ge> length il
     then (let v1 = set_pointers (v\<lparr>m_size := length il\<rparr>)
           in lift v1 (construct_elements_range il 0 (m_array_start v1) h))
     else
       bind (lift v (deallocate (m_array v) (m_capacity v)
                      (destroy_elements (m_array v) (m_size v) h)))
         (\<lambda>u (h1, v).
       bind (lift (v\<lparr>m_capacity := length il, m_size := length il\<rparr>) (allocate (length il) h1))
         (\<lambda>a (h2, v1).
       (let v2 = set_pointers (v1\<lparr>m_array := a\<rparr>)
        in lift v2 (construct_elements_range il 0 (m_array_start v2) h2)))))"

subsection \<open>Capacity\<close>

definition resize :: "nat \<Rightarrow> 'a state \<Rightarrow> (unit, 'a state) outcome" where
  "resize n = (\<lambda>(h, v).
     if n \<le> m_size v
     then Return ()
            (destroy_elements (ptr_add (m_array_start v) (int n)) (m_size v - n) h,
             v\<lparr>m_size := n\<rparr>)
     else
       bind (increase_array (max n (2 * m_capacity v)) (h, v))
         (\<lambda>u (h1, v). Return () (h1, v\<lparr>m_size := n\<rparr>)))"

text \<open>
  \<^verbatim>\<open>resize(n, val)\<close>, lines 504 to 514. Line 510 is
  \<^verbatim>\<open>construct_elements(end(), array_range_end_ - array_end_, val)\<close>, with an iterator
  and a \<^verbatim>\<open>ptrdiff_t\<close>: the template overload cannot take both as one iterator type, and
  the overload with a count takes a pointer, to which the iterator does not convert.
\<close>

definition resize_val :: "nat \<Rightarrow> 'a \<Rightarrow> 'a state \<Rightarrow> (unit, 'a state) outcome" where
  "resize_val n val = ill_formed"

definition reserve :: "nat \<Rightarrow> 'a state \<Rightarrow> (unit, 'a state) outcome" where
  "reserve n = (\<lambda>(h, v).
     if n > m_capacity v then increase_array n (h, v) else Return () (h, v))"

definition shrink_to_fit :: "'a state \<Rightarrow> (unit, 'a state) outcome" where
  "shrink_to_fit = (\<lambda>(h, v). increase_array (m_size v) (h, v))"

subsection \<open>Element access\<close>

text \<open>A reference to an element is the pointer to its slot; reading it is \<open>load\<close>.\<close>

definition subscript :: "vector \<Rightarrow> nat \<Rightarrow> pointer" where
  "subscript v n = ptr_add (m_array_start v) (int n)"

definition at :: "vector \<Rightarrow> nat \<Rightarrow> error + pointer" where
  "at v n =
     (if n < m_capacity v \<and> n > 0 then Inr (ptr_add (m_array_start v) (int n))
      else Inl OutOfRange)"

definition front :: "vector \<Rightarrow> pointer" where
  "front v = m_array_start v"

definition back_v :: "vector \<Rightarrow> pointer" where
  "back_v v = m_array_end v"

text \<open>Reading all elements through \<^verbatim>\<open>operator[]\<close>, from index 0 up to \<^verbatim>\<open>size()\<close>.\<close>

definition elements :: "'a heap \<Rightarrow> vector \<Rightarrow> 'a slot option list" where
  "elements h v = map (\<lambda>i. load h (subscript v i)) [0..<size_v v]"


subsection \<open>Modifiers\<close>

definition assign_range :: "'a list \<Rightarrow> 'a state \<Rightarrow> (unit, 'a state) outcome" where
  "assign_range xs = (\<lambda>(h, v).
     if length xs \<le> m_capacity v
     then
       bind (lift (v\<lparr>m_size := length xs\<rparr>)
               (construct_elements_range xs 0 (m_array_start v) h))
         (\<lambda>u (h1, v1). Return () (h1, set_pointers v1))
     else
       bind (increase_array (length xs) (h, v\<lparr>m_size := length xs\<rparr>))
         (\<lambda>u (h1, v1).
       bind (lift v1 (construct_elements_range xs 0 (m_array_start v1) h1))
         (\<lambda>u (h2, v2). Return () (h2, set_pointers v2))))"

definition assign_fill :: "nat \<Rightarrow> 'a \<Rightarrow> 'a state \<Rightarrow> (unit, 'a state) outcome" where
  "assign_fill n val = (\<lambda>(h, v).
     if n \<le> m_capacity v
     then
       bind (lift (v\<lparr>m_size := n\<rparr>) (construct_elements_fill (m_array v) n val h))
         (\<lambda>u (h1, v1). Return () (h1, set_pointers v1))
     else
       bind (increase_array n (h, v\<lparr>m_size := n\<rparr>))
         (\<lambda>u (h1, v1).
       bind (lift v1 (construct_elements_fill (m_array v1) n val h1))
         (\<lambda>u (h2, v2). Return () (h2, set_pointers v2))))"

text \<open>
  \<^verbatim>\<open>assign(std::initializer_list)\<close>, lines 685 to 696. Line 693 is
  \<^verbatim>\<open>s(il.begin(), il.end(), begin())\<close> where the two other forms call
  \<^verbatim>\<open>construct_elements\<close>, and no \<^verbatim>\<open>s\<close> is declared anywhere in the repository.
\<close>

definition assign_il :: "'a list \<Rightarrow> 'a state \<Rightarrow> (unit, 'a state) outcome" where
  "assign_il il = ill_formed"

text \<open>The capacity asked for by \<^verbatim>\<open>push_back\<close>, \<^verbatim>\<open>insert\<close> and \<^verbatim>\<open>emplace\<close> when the
  buffer is full: \<^verbatim>\<open>std::max(1, static_cast<int>(capacity_*2))\<close>, an \<^verbatim>\<open>int\<close> passed on
  as \<^verbatim>\<open>size_type\<close>.\<close>

definition doubled :: "vector \<Rightarrow> nat" where
  "doubled v = size_type_of_int (max 1 (static_cast_int (m_capacity v * 2)))"

definition push_back :: "'a \<Rightarrow> 'a state \<Rightarrow> (unit, 'a state) outcome" where
  "push_back val = (\<lambda>(h, v).
     if m_array_end v \<noteq> m_array_range_end v
     then
       bind (lift v (construct (m_array_end v) val h))
         (\<lambda>u (h1, v). Return () (h1, set_pointers (v\<lparr>m_size := m_size v + 1\<rparr>)))
     else
       bind (increase_array (doubled v) (h, v))
         (\<lambda>u (h1, v).
       bind (lift v (construct (m_array_end v) val h1))
         (\<lambda>u (h2, v). Return () (h2, set_pointers (v\<lparr>m_size := m_size v + 1\<rparr>)))))"

definition pop_back :: "'a state \<Rightarrow> 'a state" where
  "pop_back = (\<lambda>(h, v).
     (destroy (m_array_end v) h,
      set_pointers (v\<lparr>m_size := size_type_of_int (int (m_size v) - 1)\<rparr>)))"

text \<open>\<^verbatim>\<open>insert(position, val)\<close>; the result is the iterator it returns.\<close>

definition insert_v :: "pointer \<Rightarrow> 'a \<Rightarrow> 'a state \<Rightarrow> (pointer, 'a state) outcome" where
  "insert_v position val = (\<lambda>(h, v).
     let distance = ptr_diff position (cbegin v) in
     bind (if m_array_end v = m_array_range_end v then increase_array (doubled v) (h, v)
           else Return () (h, v))
       (\<lambda>u (h1, v).
     let v1 = v\<lparr>m_size := m_size v + 1\<rparr>;
         it = ptr_add (begin_v v1) distance
     in
     bind (lift v1 (construct_elements it (end_v v1)
                      (ptr_add (m_array_start v1) (distance + 1)) h1))
       (\<lambda>u (h2, v1).
     bind (lift v1 (construct (ptr_add (m_array_start v1) distance) val h2))
       (\<lambda>u s. Return it s))))"

text \<open>The capacity asked for by the inserts of several elements:
  \<^verbatim>\<open>std::max(static_cast<int>(capacity_*2), static_cast<int>(size_ + count))\<close>.\<close>

definition grown :: "vector \<Rightarrow> int \<Rightarrow> nat" where
  "grown v count =
     size_type_of_int
       (max (static_cast_int (m_capacity v * 2))
            (static_cast_int (size_type_of_int (int (m_size v) + count))))"

text \<open>
  \<^verbatim>\<open>insert(position, count, val)\<close>, lines 790 to 799. Line 797 is
  \<^verbatim>\<open>construct_elements(it, count, val)\<close> with the iterator \<^verbatim>\<open>it\<close>, which no overload
  accepts, as on line 510.
\<close>

definition insert_fill :: "pointer \<Rightarrow> nat \<Rightarrow> 'a \<Rightarrow> 'a state \<Rightarrow> (pointer, 'a state) outcome" where
  "insert_fill position count val = ill_formed"

text \<open>\<^verbatim>\<open>insert(position, first, last)\<close> and \<^verbatim>\<open>insert(position, il)\<close>, which have the
  same body.\<close>

definition insert_range :: "pointer \<Rightarrow> 'a list \<Rightarrow> 'a state \<Rightarrow> (pointer, 'a state) outcome" where
  "insert_range position xs = (\<lambda>(h, v).
     let distance = ptr_diff position (cbegin v);
         count = int (length xs)
     in
     bind (if size_type_of_int (int (m_size v) + count) > m_capacity v
           then increase_array (grown v count) (h, v)
           else Return () (h, v))
       (\<lambda>u (h1, v).
     let v1 = v\<lparr>m_size := size_type_of_int (int (m_size v) + count)\<rparr>;
         it = ptr_add (begin_v v1) distance
     in
     bind (lift v1 (construct_elements it (end_v v1)
                      (ptr_add (m_array_start v1) (distance + count)) h1))
       (\<lambda>u (h2, v1).
     bind (lift v1 (construct_elements_range xs 0 (ptr_add (m_array_start v1) distance) h2))
       (\<lambda>u s. Return it s))))"

definition erase :: "pointer \<Rightarrow> 'a state \<Rightarrow> (pointer, 'a state) outcome" where
  "erase position = (\<lambda>(h, v).
     let distance = ptr_diff position (cbegin v);
         it = ptr_add (begin_v v) distance
     in
     bind (lift v (construct_elements (ptr_add it 1) (end_v v)
                     (ptr_add (m_array_start v) distance) h))
       (\<lambda>u (h1, v). Return it (h1, v\<lparr>m_size := size_type_of_int (int (m_size v) - 1)\<rparr>)))"

definition erase_range :: "pointer \<Rightarrow> pointer \<Rightarrow> 'a state \<Rightarrow> (pointer, 'a state) outcome" where
  "erase_range first_it last_it = (\<lambda>(h, v).
     let distance = ptr_diff first_it (cbegin v);
         distance_first_last = ptr_diff last_it (cbegin v);
         it_first = ptr_add (begin_v v) distance;
         it_last = ptr_add (begin_v v) distance_first_last
     in
     bind (lift v (construct_elements it_last (end_v v)
                     (ptr_add (m_array_start v) distance) h))
       (\<lambda>u (h1, v).
          Return it_first
            (h1, v\<lparr>m_size := size_type_of_int (int (m_size v) - ptr_diff last_it first_it)\<rparr>)))"

definition swap_v :: "vector \<times> vector \<Rightarrow> vector \<times> vector" where
  "swap_v = (\<lambda>(v, x).
     (set_pointers (v\<lparr>m_capacity := m_capacity x, m_size := m_size x, m_array := m_array x\<rparr>),
      set_pointers (x\<lparr>m_capacity := m_capacity v, m_size := m_size v, m_array := m_array v\<rparr>)))"

definition clear :: "'a state \<Rightarrow> 'a state" where
  "clear = (\<lambda>(h, v).
     (destroy_elements (m_array v) (m_size v) h, set_pointers (v\<lparr>m_size := 0\<rparr>)))"

text \<open>\<^verbatim>\<open>emplace\<close> and \<^verbatim>\<open>emplace_back\<close>: the element built from the forwarded arguments
  is the value \<open>val\<close>.\<close>

definition emplace :: "pointer \<Rightarrow> 'a \<Rightarrow> 'a state \<Rightarrow> (pointer, 'a state) outcome" where
  "emplace position val = (\<lambda>(h, v).
     let distance = ptr_diff position (cbegin v) in
     bind (if m_array_end v = m_array_range_end v then increase_array (doubled v) (h, v)
           else Return () (h, v))
       (\<lambda>u (h1, v).
     bind (lift v (construct_elements (ptr_add (begin_v v) distance) (end_v v)
                     (ptr_add (m_array_start v) (distance + 1)) h1))
       (\<lambda>u (h2, v).
     bind (lift v (construct (ptr_add (m_array_start v) distance) val h2))
       (\<lambda>u (h3, v).
     let v1 = set_pointers (v\<lparr>m_size := m_size v + 1\<rparr>)
     in Return (ptr_add (begin_v v1) distance) (h3, v1)))))"

definition emplace_back :: "'a \<Rightarrow> 'a state \<Rightarrow> (unit, 'a state) outcome" where
  "emplace_back val = (\<lambda>(h, v).
     bind (if m_array_end v = m_array_range_end v then increase_array (doubled v) (h, v)
           else Return () (h, v))
       (\<lambda>u (h1, v).
     bind (lift v (construct (m_array_end v) val h1))
       (\<lambda>u (h2, v). Return () (h2, set_pointers (v\<lparr>m_size := m_size v + 1\<rparr>)))))"


section \<open>State invariants\<close>

text \<open>I1 and I3 of the data model, and the half of I3 that the code keeps.\<close>

definition I1 :: "vector \<Rightarrow> bool" where
  "I1 v = (size_v v \<le> capacity v)"

definition I3 :: "vector \<Rightarrow> bool" where
  "I3 v = ((data_v v = nullptr) = (capacity v = 0))"

definition I3_null :: "vector \<Rightarrow> bool" where
  "I3_null v = (data_v v = nullptr \<longrightarrow> capacity v = 0)"

text \<open>
  What \<^verbatim>\<open>set_pointers\<close> establishes for the start and the end of the capacity, and a
  weaker fact for the end of the elements: \<^verbatim>\<open>array_end_\<close> points into the same buffer,
  not before \<^verbatim>\<open>array_ + size_\<close> and not after \<^verbatim>\<open>array_ + capacity_\<close>. It is
  \<^verbatim>\<open>array_ + size_\<close> exactly after \<^verbatim>\<open>set_pointers\<close>.
\<close>

definition range_pointers :: "vector \<Rightarrow> bool" where
  "range_pointers v =
     (off (m_array v) = 0 \<and>
      m_array_start v = m_array v \<and>
      m_array_range_end v = ptr_add (m_array v) (int (m_capacity v)) \<and>
      blk (m_array_end v) = blk (m_array v) \<and>
      int (m_size v) \<le> off (m_array_end v) \<and>
      off (m_array_end v) \<le> int (m_capacity v))"

definition consistent :: "vector \<Rightarrow> bool" where
  "consistent v = (I1 v \<and> I3_null v \<and> range_pointers v)"

text \<open>The container \<open>v\<close> owns a buffer of the store: \<^verbatim>\<open>array_\<close> is null with no capacity,
  or the start of a live block of \<^verbatim>\<open>capacity_\<close> slots, and \<^verbatim>\<open>array_start_\<close> agrees.\<close>

definition owns :: "'a heap \<Rightarrow> vector \<Rightarrow> bool" where
  "owns h v =
     (m_array_start v = m_array v \<and> off (m_array v) = 0 \<and>
      (case blk (m_array v) of
         None \<Rightarrow> m_capacity v = 0
       | Some b \<Rightarrow>
           (case cells h b of None \<Rightarrow> False | Some cs \<Rightarrow> length cs = m_capacity v)))"

text \<open>Two containers do not share a buffer (I4).\<close>

definition separate :: "vector \<Rightarrow> vector \<Rightarrow> bool" where
  "separate v x = (blk (m_array v) = None \<or> blk (m_array v) \<noteq> blk (m_array x))"

text \<open>The buffer of \<open>v\<close>, if it has one, was handed out by the allocator of this store.\<close>

definition known :: "'a heap \<Rightarrow> vector \<Rightarrow> bool" where
  "known h v = (case blk (m_array v) of None \<Rightarrow> True | Some b \<Rightarrow> b < fresh h)"

section \<open>Calling code\<close>

text \<open>
  What a caller sees of a call: the state it leaves (\<open>final\<close>), the error it raised if
  any, and the elements read back through \<^verbatim>\<open>operator[]\<close>. \<open>seq\<close> is one statement after
  another; \<open>insert_at\<close> and \<open>erase_at\<close> are \<^verbatim>\<open>v.insert(v.cbegin() + i, val)\<close> and
  \<^verbatim>\<open>v.erase(v.cbegin() + i)\<close>.
\<close>

definition final :: "('r, 's) outcome \<Rightarrow> 's" where
  "final r = (case r of Return x s \<Rightarrow> s | Raise e s \<Rightarrow> s)"

definition raised :: "('r, 's) outcome \<Rightarrow> error option" where
  "raised r = (case r of Return x s \<Rightarrow> None | Raise e s \<Rightarrow> Some e)"

definition seq :: "('r, 's) outcome \<Rightarrow> ('s \<Rightarrow> ('q, 's) outcome) \<Rightarrow> ('q, 's) outcome" where
  "seq r f = bind r (\<lambda>x s. f s)"

definition contents :: "('r, 'a state) outcome \<Rightarrow> 'a slot option list option" where
  "contents r = (case r of Return x (h, v) \<Rightarrow> Some (elements h v) | Raise e s \<Rightarrow> None)"

definition insert_at :: "nat \<Rightarrow> 'a \<Rightarrow> 'a state \<Rightarrow> (pointer, 'a state) outcome" where
  "insert_at i val = (\<lambda>(h, v). insert_v (ptr_add (cbegin v) (int i)) val (h, v))"

definition erase_at :: "nat \<Rightarrow> 'a state \<Rightarrow> (pointer, 'a state) outcome" where
  "erase_at i = (\<lambda>(h, v). erase (ptr_add (cbegin v) (int i)) (h, v))"

text \<open>Three containers of integers used below: \<open>{1, 2, 3}\<close> assigned to a new container;
  a new container after \<^verbatim>\<open>push_back(1)\<close> and \<^verbatim>\<open>insert(cbegin() + 1, 2)\<close>; and, in the
  store of the second, a third one holding five zeros.\<close>

definition example_123 :: "(unit, int state) outcome" where
  "example_123 = assign_range [1, 2, 3] (empty_heap 100, vector_default)"

definition example_12 :: "(pointer, int state) outcome" where
  "example_12 = seq (push_back 1 (empty_heap 100, vector_default)) (insert_at 1 2)"

definition example_00000 :: "(unit, int state) outcome" where
  "example_00000 = assign_fill 5 0 (fst (final example_12), vector_default)"

text \<open>A new container in a store where nothing can be allocated.\<close>

definition no_memory :: "int state" where
  "no_memory = (empty_heap 0, vector_default)"

section \<open>The claims that fail at a concrete input\<close>

lemmas eval_defs =
  example_123_def example_12_def example_00000_def final_def raised_def seq_def contents_def
  insert_at_def erase_at_def elements_def subscript_def at_def back_v_def front_def
  size_v_def capacity_def data_v_def begin_v_def end_v_def cbegin_def cend_def
  vector_default_def members_def set_pointers_def empty_heap_def nullptr_def
  ptr_add_def ptr_diff_def ptr_less_def ptr_min_def load_def store_def allocate_def
  deallocate_def construct_def destroy_def destroy_elements_def construct_elements_def
  construct_elements_fill_def increase_array_def doubled_def grown_def static_cast_int_def
  size_type_of_int_def assign_range_def assign_fill_def push_back_def
  insert_v_def erase_def reserve_def shrink_to_fit_def resize_def
  copy_assign_def vector_n_def I1_def I3_def

text \<open>
  C1: \<^verbatim>\<open>at(index)\<close> raises \<open>OutOfRange\<close> exactly when the index is not below the size.
  The code tests \<^verbatim>\<open>n < capacity_ && n > 0\<close>: on the container \<open>{1, 2, 3}\<close> the call
  \<^verbatim>\<open>at(0)\<close> raises, and after \<^verbatim>\<open>reserve(5)\<close> the call \<^verbatim>\<open>at(3)\<close> returns a reference
  to a raw slot instead of raising.
\<close>

theorem at_checks_capacity_and_rejects_zero:
  "raised example_123 = None \<and>
   size_v (snd (final example_123)) = 3 \<and>
   at (snd (final example_123)) 0 = Inl OutOfRange \<and>
   raised (reserve 5 (final example_123)) = None \<and>
   size_v (snd (final (reserve 5 (final example_123)))) = 3 \<and>
   at (snd (final (reserve 5 (final example_123)))) 3
     = Inr (subscript (snd (final (reserve 5 (final example_123)))) 3) \<and>
   load (fst (final (reserve 5 (final example_123))))
     (subscript (snd (final (reserve 5 (final example_123)))) 3) = Some Raw"
  by (simp add: eval_defs numeral_eq_Suc)


text \<open>
  C2: \<^verbatim>\<open>insert(p, v)\<close> followed by \<^verbatim>\<open>erase(p)\<close> restores the sequence. On \<open>{1, 2, 3}\<close>
  with \<open>p = 1\<close> and \<open>v = 9\<close> the code ends with \<open>{1, 2, 2}\<close>: \<^verbatim>\<open>insert\<close> shifts the tail
  front to back into itself and does not call \<^verbatim>\<open>set_pointers\<close> after \<^verbatim>\<open>size_++\<close>, so
  that \<^verbatim>\<open>erase\<close> works with an end pointer one element short.
\<close>

theorem insert_then_erase_loses_element:
  "raised example_123 = None \<and>
   contents example_123 = Some [Some (Live 1), Some (Live 2), Some (Live 3)] \<and>
   contents (insert_at 1 9 (final example_123))
     = Some [Some (Live 1), Some (Live 9), Some (Live 2), Some (Live 2)] \<and>
   contents (seq (insert_at 1 9 (final example_123)) (erase_at 1))
     = Some [Some (Live 1), Some (Live 2), Some (Live 2)]"
  by code_simp

text \<open>
  C7: \<^verbatim>\<open>back()\<close> refers to the element at index \<open>size - 1\<close>. The code returns
  \<^verbatim>\<open>*(array_end_)\<close>: on \<open>{1, 2, 3}\<close> that is the slot of index 3, outside the buffer,
  while the last element is at index 2.
\<close>

theorem back_is_one_past_the_last_element:
  "raised example_123 = None \<and>
   size_v (snd (final example_123)) = 3 \<and>
   back_v (snd (final example_123)) = subscript (snd (final example_123)) 3 \<and>
   back_v (snd (final example_123)) \<noteq> subscript (snd (final example_123)) 2 \<and>
   load (fst (final example_123)) (back_v (snd (final example_123))) = None \<and>
   load (fst (final example_123)) (subscript (snd (final example_123)) 2) = Some (Live 3)"
  by code_simp

text \<open>
  C8: \<^verbatim>\<open>reserve(n)\<close> changes no element. After \<^verbatim>\<open>push_back(1)\<close> and
  \<^verbatim>\<open>insert(cbegin() + 1, 2)\<close> the container holds \<open>{1, 2}\<close> with capacity 2;
  \<^verbatim>\<open>reserve(5)\<close> keeps the size and leaves index 1 raw.
\<close>

theorem reserve_after_insert_loses_element:
  "contents example_12 = Some [Some (Live 1), Some (Live 2)] \<and>
   capacity (snd (final example_12)) = 2 \<and>
   size_v (snd (final (reserve 5 (final example_12)))) = 2 \<and>
   capacity (snd (final (reserve 5 (final example_12)))) = 5 \<and>
   contents (reserve 5 (final example_12)) = Some [Some (Live 1), Some Raw]"
  by code_simp

text \<open>
  C10: copy assignment into a container whose capacity suffices copies the elements of
  the right-hand side. With \<open>b = {1, 2}\<close> built by \<^verbatim>\<open>push_back(1)\<close> and
  \<^verbatim>\<open>insert(cbegin() + 1, 2)\<close>, and \<open>a\<close> holding five zeros, \<open>a = b\<close> gives \<open>a\<close> the size 2
  and the elements \<open>{1, 0}\<close>: the copy runs up to \<open>b\<close>'s end pointer.
\<close>

theorem copy_assign_after_insert_misses_element:
  "raised example_00000 = None \<and>
   capacity (snd (final example_00000)) = 5 \<and>
   elements (fst (final example_00000)) (snd (final example_12))
     = [Some (Live 1), Some (Live 2)] \<and>
   size_v (snd (final (copy_assign (snd (final example_12)) (final example_00000)))) = 2 \<and>
   contents (copy_assign (snd (final example_12)) (final example_00000))
     = Some [Some (Live 1), Some (Live 0)]"
  by code_simp


section \<open>Outcomes and pointers\<close>

lemma blk_ptr_add [simp]: "blk (ptr_add p n) = blk p"
  by (simp add: ptr_add_def)

lemma off_ptr_add [simp]: "off (ptr_add p n) = off p + n"
  by (simp add: ptr_add_def)

lemma bind_Return_iff:
  "bind r f = Return y t \<longleftrightarrow> (\<exists>x s. r = Return x s \<and> f x s = Return y t)"
  by (cases r) simp_all

lemma bind_Raise_iff:
  "bind r f = Raise e t \<longleftrightarrow> r = Raise e t \<or> (\<exists>x s. r = Return x s \<and> f x s = Raise e t)"
  by (cases r) simp_all

lemma lift_Return_iff: "lift v r = Return x s \<longleftrightarrow> (\<exists>h. r = Return x h \<and> s = (h, v))"
  by (cases r) auto

lemma lift_Raise_iff: "lift v r = Raise e s \<longleftrightarrow> (\<exists>h. r = Raise e h \<and> s = (h, v))"
  by (cases r) auto

lemmas outcome_iffs = bind_Return_iff bind_Raise_iff lift_Return_iff lift_Raise_iff


section \<open>Allocation failure\<close>

text \<open>
  C4, as stated: every mutating operation leaves the container as it was when its
  allocation fails. \<^verbatim>\<open>assign(first, last)\<close> writes \<^verbatim>\<open>size_\<close> before it asks for the
  larger buffer: on a new container with no memory left, \<^verbatim>\<open>assign\<close> of three values
  raises \<open>AllocationError\<close> and leaves the size 3 where it was 0.
\<close>

theorem assign_changes_size_before_failed_allocation:
  "size_v (snd no_memory) = 0 \<and>
   raised (assign_range [1, 2, 3] no_memory) = Some AllocationError \<and>
   size_v (snd (final (assign_range [1, 2, 3] no_memory))) = 3 \<and>
   capacity (snd (final (assign_range [1, 2, 3] no_memory))) = 0"
  by code_simp

subsection \<open>Which errors the helpers raise\<close>

lemma store_Raise: "store p x h = Raise e h' \<Longrightarrow> e = MemoryFault"
  by (auto simp: store_def split: option.splits if_splits)

lemma construct_Raise: "construct p x h = Raise e h' \<Longrightarrow> e = MemoryFault"
  by (simp add: construct_def store_Raise)

lemma deallocate_Raise: "deallocate p n h = Raise e h' \<Longrightarrow> e = MemoryFault"
  by (auto simp: deallocate_def split: option.splits if_splits)

lemma allocate_Raise: "allocate n h = Raise e h' \<Longrightarrow> e = AllocationError \<and> h' = h"
  by (auto simp: allocate_def split: if_splits)

lemma construct_loop_Raise: "construct_loop k i b d h = Raise e h' \<Longrightarrow> e = MemoryFault"
  by (induction k arbitrary: i b h)
     (auto simp: bind_Raise_iff split: option.splits dest: store_Raise)

lemma construct_elements_Raise: "construct_elements b e' d h = Raise e h' \<Longrightarrow> e = MemoryFault"
  by (simp add: construct_elements_def construct_loop_Raise)

lemma construct_elements_range_Raise:
  "construct_elements_range xs i d h = Raise e h' \<Longrightarrow> e = MemoryFault"
  by (induction xs arbitrary: i h) (auto simp: bind_Raise_iff dest: construct_Raise)

lemma construct_fill_loop_Raise:
  "construct_fill_loop k i d val h = Raise e h' \<Longrightarrow> e = MemoryFault"
  by (induction k arbitrary: i h) (auto simp: bind_Raise_iff dest: construct_Raise)

lemma construct_elements_fill_Raise:
  "construct_elements_fill d k val h = Raise e h' \<Longrightarrow> e = MemoryFault"
  by (simp add: construct_elements_fill_def construct_fill_loop_Raise)

lemmas fault_only = construct_Raise deallocate_Raise construct_elements_Raise
  construct_elements_range_Raise construct_elements_fill_Raise

lemma increase_array_Raise:
  "increase_array n (h, v) = Raise e s' \<Longrightarrow> e = MemoryFault \<or> (e = AllocationError \<and> s' = (h, v))"
  by (auto simp: increase_array_def outcome_iffs dest: fault_only allocate_Raise)

lemma increase_array_AllocationError:
  "increase_array n s = Raise AllocationError s' \<Longrightarrow> s' = s"
  by (cases s) (auto dest: increase_array_Raise)

lemma grow_if_AllocationError:
  "(if c then increase_array n s else Return () s) = Raise AllocationError s' \<Longrightarrow> s' = s"
  by (auto split: if_splits dest: increase_array_AllocationError)

lemma reserve_alloc: "reserve n s = Raise AllocationError s' \<Longrightarrow> s' = s"
  by (cases s) (auto simp: reserve_def split: if_splits dest: increase_array_AllocationError)

lemma shrink_alloc: "shrink_to_fit s = Raise AllocationError s' \<Longrightarrow> s' = s"
  by (cases s) (auto simp: shrink_to_fit_def dest: increase_array_AllocationError)

lemma resize_alloc: "resize n s = Raise AllocationError s' \<Longrightarrow> s' = s"
  by (cases s) (auto simp: resize_def outcome_iffs split: if_splits dest: increase_array_AllocationError)

lemma resize_val_alloc: "resize_val n val s = Raise AllocationError s' \<Longrightarrow> s' = s"
  by (simp add: resize_val_def ill_formed_def)

lemma push_back_alloc: "push_back val s = Raise AllocationError s' \<Longrightarrow> s' = s"
  by (cases s) (auto simp: push_back_def outcome_iffs split: if_splits
        dest: increase_array_AllocationError fault_only)

lemma emplace_back_alloc: "emplace_back val s = Raise AllocationError s' \<Longrightarrow> s' = s"
  by (cases s) (auto simp: emplace_back_def outcome_iffs split: if_splits
        dest: increase_array_AllocationError fault_only)

lemma insert_v_alloc: "insert_v position val s = Raise AllocationError s' \<Longrightarrow> s' = s"
  by (cases s) (auto simp: insert_v_def Let_def outcome_iffs split: if_splits
        dest: increase_array_AllocationError fault_only)

lemma insert_fill_alloc: "insert_fill position count val s = Raise AllocationError s' \<Longrightarrow> s' = s"
  by (simp add: insert_fill_def ill_formed_def)

lemma insert_range_alloc: "insert_range position xs s = Raise AllocationError s' \<Longrightarrow> s' = s"
  by (cases s) (auto simp: insert_range_def Let_def outcome_iffs split: if_splits
        dest: increase_array_AllocationError fault_only)

lemma emplace_alloc: "emplace position val s = Raise AllocationError s' \<Longrightarrow> s' = s"
  by (cases s) (auto simp: emplace_def Let_def outcome_iffs split: if_splits
        dest: increase_array_AllocationError fault_only)

text \<open>
  C4, amended: \<^verbatim>\<open>reserve\<close>, \<^verbatim>\<open>shrink_to_fit\<close>, both \<^verbatim>\<open>resize\<close>, \<^verbatim>\<open>push_back\<close>,
  \<^verbatim>\<open>emplace_back\<close>, the three forms of \<^verbatim>\<open>insert\<close> and \<^verbatim>\<open>emplace\<close> ask for memory
  before they change anything: when one of them raises \<open>AllocationError\<close>, the state it
  leaves, container and store, is the state it was called in.
\<close>

theorem allocation_failure_leaves_state:
  "(reserve n s = Raise AllocationError s' \<longrightarrow> s' = s) \<and>
   (shrink_to_fit s = Raise AllocationError s' \<longrightarrow> s' = s) \<and>
   (resize n s = Raise AllocationError s' \<longrightarrow> s' = s) \<and>
   (resize_val n val s = Raise AllocationError s' \<longrightarrow> s' = s) \<and>
   (push_back val s = Raise AllocationError s' \<longrightarrow> s' = s) \<and>
   (emplace_back val s = Raise AllocationError s' \<longrightarrow> s' = s) \<and>
   (insert_v position val s = Raise AllocationError s' \<longrightarrow> s' = s) \<and>
   (insert_fill position count val s = Raise AllocationError s' \<longrightarrow> s' = s) \<and>
   (insert_range position xs s = Raise AllocationError s' \<longrightarrow> s' = s) \<and>
   (emplace position val s = Raise AllocationError s' \<longrightarrow> s' = s)"
  by (intro conjI impI;
      erule reserve_alloc shrink_alloc resize_alloc resize_val_alloc push_back_alloc
        emplace_back_alloc insert_v_alloc insert_fill_alloc insert_range_alloc emplace_alloc)

theorem allocation_failure_leaves_state_witness:
  "raised (push_back 1 no_memory) = Some AllocationError \<and>
   final (push_back 1 no_memory) = no_memory"
proof -
  have r: "push_back 1 no_memory = Raise AllocationError (final (push_back 1 no_memory))"
    by (simp add: no_memory_def eval_defs)
  from allocation_failure_leaves_state
    [where s = no_memory and s' = "final (push_back 1 no_memory)" and val = 1]
  have "push_back 1 no_memory = Raise AllocationError (final (push_back 1 no_memory))
          \<longrightarrow> final (push_back 1 no_memory) = no_memory"
    by blast
  with r have "final (push_back 1 no_memory) = no_memory" by blast
  moreover have "raised (push_back 1 no_memory) = Some AllocationError"
    by code_simp
  ultimately show ?thesis by blast
qed

section \<open>Moving a container\<close>

lemma destroy_cells_other: "blk p \<noteq> Some b \<Longrightarrow> cells (destroy p h) b = cells h b"
  by (auto simp: destroy_def store_def split: option.splits)

lemma destroy_cells_length:
  "map_option length (cells (destroy p h) b) = map_option length (cells h b)"
  by (auto simp: destroy_def store_def split: option.splits)

lemma destroy_loop_cells_other:
  "blk start \<noteq> Some b \<Longrightarrow> cells (destroy_loop k i start h) b = cells h b"
  by (induction k arbitrary: i h) (simp_all add: destroy_cells_other)

lemma destroy_loop_cells_length:
  "map_option length (cells (destroy_loop k i start h) b) = map_option length (cells h b)"
  by (induction k arbitrary: i h) (simp_all add: destroy_cells_length)

lemma load_same_cells:
  "(\<And>b. blk p = Some b \<Longrightarrow> cells h' b = cells h b) \<Longrightarrow> load h' p = load h p"
  by (auto simp: load_def split: option.splits)

lemma deallocate_owned:
  assumes "owns h v"
  shows "\<exists>h1. deallocate (m_array v) n (destroy_elements (m_array v) k h) = Return () h1 \<and>
           (\<forall>b. blk (m_array v) \<noteq> Some b \<longrightarrow> cells h1 b = cells h b)"
proof (cases "blk (m_array v)")
  case None
  then show ?thesis
    by (simp add: deallocate_def destroy_elements_def destroy_loop_cells_other)
next
  case (Some bb)
  with assms obtain cs where cs: "cells h bb = Some cs" and o: "off (m_array v) = 0"
    by (auto simp: owns_def split: option.splits)
  from destroy_loop_cells_length [of k 0 "m_array v" h bb] cs
  obtain cs' where "cells (destroy_loop k 0 (m_array v) h) bb = Some cs'"
    by (cases "cells (destroy_loop k 0 (m_array v) h) bb") auto
  with Some o show ?thesis
    by (auto simp: deallocate_def destroy_elements_def destroy_loop_cells_other)
qed

lemma elements_same_cells:
  assumes "m_array_start v' = m_array_start v" "m_size v' = m_size v"
    and "\<And>b. blk (m_array_start v) = Some b \<Longrightarrow> cells h' b = cells h b"
  shows "elements h' v' = elements h v"
  using assms by (auto simp: elements_def subscript_def size_v_def intro!: load_same_cells)


text \<open>
  C5: after move construction from \<open>a\<close>, and after move assignment of \<open>a\<close> to \<open>b\<close>, the
  target has the size, the capacity and the buffer of \<open>a\<close> and reads back \<open>a\<close>'s
  elements in order, and \<open>a\<close> is left with size 0, capacity 0 and a null buffer. Both
  containers own their buffers, which are not the same one; move assignment returns.
\<close>

theorem move_leaves_source_empty:
  assumes "owns h a" and "owns h b" and "separate b a"
  shows
    "size_v (fst (vector_move a)) = size_v a \<and>
     capacity (fst (vector_move a)) = capacity a \<and>
     data_v (fst (vector_move a)) = data_v a \<and>
     elements h (fst (vector_move a)) = elements h a \<and>
     size_v (snd (vector_move a)) = 0 \<and>
     capacity (snd (vector_move a)) = 0 \<and>
     data_v (snd (vector_move a)) = nullptr \<and>
     raised (move_assign (h, b, a)) = None \<and>
     size_v (fst (snd (final (move_assign (h, b, a))))) = size_v a \<and>
     capacity (fst (snd (final (move_assign (h, b, a))))) = capacity a \<and>
     data_v (fst (snd (final (move_assign (h, b, a))))) = data_v a \<and>
     elements (fst (final (move_assign (h, b, a)))) (fst (snd (final (move_assign (h, b, a)))))
       = elements h a \<and>
     size_v (snd (snd (final (move_assign (h, b, a))))) = 0 \<and>
     capacity (snd (snd (final (move_assign (h, b, a))))) = 0 \<and>
     data_v (snd (snd (final (move_assign (h, b, a))))) = nullptr"
proof -
  from \<open>owns h a\<close> have start: "m_array_start a = m_array a"
    by (simp add: owns_def)
  have ctor: "elements h (fst (vector_move a)) = elements h a"
    by (rule elements_same_cells) (simp_all add: vector_move_def members_def start)
  from deallocate_owned [OF \<open>owns h b\<close>, of "m_capacity b" "m_capacity b"]
  obtain h1 where h1: "deallocate (m_array b) (m_capacity b)
        (destroy_elements (m_array b) (m_capacity b) h) = Return () h1"
    and other: "\<And>bb. blk (m_array b) \<noteq> Some bb \<Longrightarrow> cells h1 bb = cells h bb"
    by blast
  let ?b' = "set_pointers (b\<lparr>m_size := m_size a, m_capacity := m_capacity a, m_array := m_array a\<rparr>)"
  let ?a' = "set_pointers (a\<lparr>m_size := 0, m_capacity := 0, m_array := nullptr\<rparr>)"
  have run: "move_assign (h, b, a) = Return () (h1, ?b', ?a')"
    by (simp add: move_assign_def h1)
  have "elements h1 ?b' = elements h a"
  proof (rule elements_same_cells)
    fix bb assume "blk (m_array_start a) = Some bb"
    with start \<open>separate b a\<close> have "blk (m_array b) \<noteq> Some bb"
      by (auto simp: separate_def)
    then show "cells h1 bb = cells h bb" by (rule other)
  qed (simp_all add: set_pointers_def start)
  with ctor run show ?thesis
    by (simp add: final_def raised_def vector_move_def members_def set_pointers_def
        size_v_def capacity_def data_v_def)
qed


theorem move_leaves_source_empty_witness:
  "owns (fst (final example_00000)) (snd (final example_12)) \<and>
   owns (fst (final example_00000)) (snd (final example_00000)) \<and>
   separate (snd (final example_00000)) (snd (final example_12)) \<and>
   raised (move_assign (fst (final example_00000), snd (final example_00000), snd (final example_12)))
     = None \<and>
   elements
     (fst (final (move_assign
        (fst (final example_00000), snd (final example_00000), snd (final example_12)))))
     (fst (snd (final (move_assign
        (fst (final example_00000), snd (final example_00000), snd (final example_12))))))
     = [Some (Live 1), Some (Live 2)] \<and>
   size_v (snd (snd (final (move_assign
        (fst (final example_00000), snd (final example_00000), snd (final example_12)))))) = 0"
proof -
  have a: "owns (fst (final example_00000)) (snd (final example_12))"
    by code_simp
  have b: "owns (fst (final example_00000)) (snd (final example_00000))"
    by code_simp
  have c: "separate (snd (final example_00000)) (snd (final example_12))"
    by code_simp
  have e: "elements (fst (final example_00000)) (snd (final example_12))
             = [Some (Live 1), Some (Live 2)]"
    by code_simp
  from move_leaves_source_empty [OF a b c] a b c e show ?thesis
    by simp
qed

section \<open>The invariants\<close>

text \<open>
  C9, as stated: every operation keeps I1 and I3 on a container built by a constructor.
  A new container has a null buffer and capacity 0; \<^verbatim>\<open>shrink_to_fit\<close> on it stores the
  buffer that the allocator hands out for no slots, which is not null, with capacity 0.
\<close>

theorem invariants_not_kept:
  "I1 vector_default \<and> I3 vector_default \<and>
   raised (shrink_to_fit (empty_heap 100 :: int heap, vector_default)) = None \<and>
   capacity (snd (final (shrink_to_fit (empty_heap 100 :: int heap, vector_default)))) = 0 \<and>
   data_v (snd (final (shrink_to_fit (empty_heap 100 :: int heap, vector_default)))) \<noteq> nullptr \<and>
   \<not> I3 (snd (final (shrink_to_fit (empty_heap 100 :: int heap, vector_default))))"
  by code_simp

lemma increase_array_Return:
  "increase_array n (h, v) = Return u (h', v') \<Longrightarrow>
     v' = set_pointers (v\<lparr>m_array := Ptr (Some (fresh h)) 0, m_capacity := n\<rparr>)"
  by (auto simp: increase_array_def outcome_iffs allocate_def split: if_splits)

lemmas inv_defs = consistent_def I1_def I3_null_def range_pointers_def size_v_def capacity_def
  data_v_def nullptr_def set_pointers_def ptr_add_def

lemma consistent_increase_array:
  "increase_array n (h, v) = Return u (h', v') \<Longrightarrow> m_size v \<le> n \<Longrightarrow> consistent v'"
  by (drule increase_array_Return) (simp add: inv_defs)

lemma consistent_set_pointers:
  "consistent v \<Longrightarrow> k \<le> m_capacity v \<Longrightarrow> consistent (set_pointers (v\<lparr>m_size := k\<rparr>))"
  by (simp add: inv_defs)

lemma full_iff:
  "range_pointers v \<Longrightarrow> (m_array_end v = m_array_range_end v) = (off (m_array_end v) = int (m_capacity v))"
  by (cases "m_array_end v") (auto simp: inv_defs)

lemma static_cast_int_small: "n < 2 ^ 31 \<Longrightarrow> static_cast_int n = int n"
  by (simp add: static_cast_int_def Let_def)

lemma size_type_of_int_small: "0 \<le> i \<Longrightarrow> i < 2 ^ 64 \<Longrightarrow> size_type_of_int i = nat i"
  by (simp add: size_type_of_int_def)

lemma doubled_small: "m_capacity v < 2 ^ 30 \<Longrightarrow> doubled v = max 1 (2 * m_capacity v)"
proof -
  assume a: "m_capacity v < 2 ^ 30"
  then have "m_capacity v * 2 < 2 ^ 31" by simp
  then have "static_cast_int (m_capacity v * 2) = int (m_capacity v * 2)"
    by (rule static_cast_int_small)
  moreover have "max 1 (int (m_capacity v * 2)) < 2 ^ 64" using a by simp
  ultimately have "doubled v = nat (max 1 (int (m_capacity v * 2)))"
    by (simp add: doubled_def size_type_of_int_small)
  then show ?thesis by (simp add: max_def) linarith
qed

lemma consistent_vector_default: "consistent vector_default"
  by (simp add: vector_default_def members_def inv_defs)

lemma allocate_Return: "allocate n h = Return a h' \<Longrightarrow> a = Ptr (Some (fresh h)) 0"
  by (auto simp: allocate_def split: if_splits)

lemma consistent_members:
  "s \<le> c \<Longrightarrow> off a = 0 \<Longrightarrow> (a = nullptr \<longrightarrow> c = 0) \<Longrightarrow> consistent (members c s a)"
  by (simp add: members_def inv_defs)

lemma consistent_vector_n: "vector_n n h = Return w h' \<Longrightarrow> consistent w"
  by (auto simp: vector_n_def outcome_iffs nullptr_def dest!: allocate_Return intro!: consistent_members)

lemma consistent_vector_fill: "vector_fill n val h = Return w h' \<Longrightarrow> consistent w"
  by (auto simp: vector_fill_def outcome_iffs nullptr_def dest!: allocate_Return intro!: consistent_members)

lemma consistent_vector_range: "vector_range xs h = Return w h' \<Longrightarrow> consistent w"
  by (auto simp: vector_range_def outcome_iffs nullptr_def dest!: allocate_Return intro!: consistent_members)

lemma consistent_vector_il: "vector_il xs h = Return w h' \<Longrightarrow> consistent w"
  by (auto simp: vector_il_def outcome_iffs nullptr_def dest!: allocate_Return intro!: consistent_members)

lemma consistent_vector_copy: "consistent x \<Longrightarrow> vector_copy x h = Return w h' \<Longrightarrow> consistent w"
  by (auto simp: vector_copy_def outcome_iffs nullptr_def dest!: allocate_Return intro!: consistent_members)
     (simp add: inv_defs)

lemma consistent_vector_move:
  "consistent x \<Longrightarrow> consistent (fst (vector_move x)) \<and> consistent (snd (vector_move x))"
  by (simp add: vector_move_def members_def inv_defs)

lemma consistent_copy_assign:
  "consistent v \<Longrightarrow> copy_assign x (h, v) = Return u (h', v') \<Longrightarrow> consistent v'"
  by (auto simp: copy_assign_def Let_def outcome_iffs split: if_splits dest!: allocate_Return)
     (simp_all add: inv_defs)

lemma consistent_il_assign:
  "consistent v \<Longrightarrow> il_assign il (h, v) = Return u (h', v') \<Longrightarrow> consistent v'"
  by (auto simp: il_assign_def Let_def outcome_iffs split: if_splits dest!: allocate_Return)
     (simp_all add: inv_defs)

lemma consistent_move_assign:
  "consistent x \<Longrightarrow> move_assign (h, v, x) = Return u (h', v', x') \<Longrightarrow> consistent v' \<and> consistent x'"
  by (auto simp: move_assign_def split: outcome.splits) (simp_all add: inv_defs)

lemma consistent_swap:
  "consistent v \<Longrightarrow> consistent x \<Longrightarrow> consistent (fst (swap_v (v, x))) \<and> consistent (snd (swap_v (v, x)))"
  by (simp add: swap_v_def inv_defs)

lemma consistent_reserve:
  "consistent v \<Longrightarrow> reserve n (h, v) = Return u (h', v') \<Longrightarrow> consistent v'"
  by (auto simp: reserve_def split: if_splits dest!: consistent_increase_array) (simp add: inv_defs)

lemma consistent_shrink_to_fit:
  "shrink_to_fit (h, v) = Return u (h', v') \<Longrightarrow> consistent v'"
  by (auto simp: shrink_to_fit_def dest!: consistent_increase_array)

lemma consistent_resize_shrink:
  "consistent v \<Longrightarrow> n \<le> m_size v \<Longrightarrow> resize n (h, v) = Return u (h', v') \<Longrightarrow> consistent v'"
  by (auto simp: resize_def) (simp_all add: inv_defs)

lemma consistent_assign_range:
  "consistent v \<Longrightarrow> assign_range xs (h, v) = Return u (h', v') \<Longrightarrow> consistent v'"
  by (auto simp: assign_range_def outcome_iffs split: if_splits dest!: increase_array_Return)
     (simp_all add: inv_defs)

lemma consistent_assign_fill:
  "consistent v \<Longrightarrow> assign_fill n val (h, v) = Return u (h', v') \<Longrightarrow> consistent v'"
  by (auto simp: assign_fill_def outcome_iffs split: if_splits dest!: increase_array_Return)
     (simp_all add: inv_defs)

lemma consistent_clear: "consistent v \<Longrightarrow> consistent (snd (clear (h, v)))"
  by (simp add: clear_def inv_defs)

lemma consistent_pop_back:
  "consistent v \<Longrightarrow> 0 < m_size v \<Longrightarrow> m_size v < 2 ^ 64 \<Longrightarrow> consistent (snd (pop_back (h, v)))"
  by (simp add: pop_back_def size_type_of_int_small) (auto simp add: inv_defs)

lemma room_after_growth:
  assumes "consistent v" and "m_capacity v < 2 ^ 30"
    and "(if m_array_end v = m_array_range_end v then increase_array (doubled v) (h, v)
          else Return () (h, v)) = Return u (h1, v1)"
  shows "range_pointers v1 \<and> I3_null v1 \<and> m_size v1 = m_size v \<and> m_size v1 < m_capacity v1"
proof (cases "m_array_end v = m_array_range_end v")
  case True
  with assms(3) have "v1 = set_pointers (v\<lparr>m_array := Ptr (Some (fresh h)) 0, m_capacity := doubled v\<rparr>)"
    by (auto dest: increase_array_Return)
  moreover from assms(1,2) have "m_size v < doubled v"
    by (simp add: doubled_small) (auto simp add: inv_defs)
  ultimately show ?thesis by (simp add: inv_defs)
next
  case False
  with assms(3) have "v1 = v" by simp
  moreover from False assms(1) have "off (m_array_end v) \<noteq> int (m_capacity v)"
    by (simp add: full_iff consistent_def)
  ultimately show ?thesis using assms(1) by (simp add: inv_defs)
qed

lemma consistent_push_back:
  assumes "consistent v" and "m_capacity v < 2 ^ 30"
    and "push_back val (h, v) = Return u (h', v')"
  shows "consistent v'"
proof (cases "m_array_end v = m_array_range_end v")
  case True
  with assms(3) obtain h1 v1 where
    g: "increase_array (doubled v) (h, v) = Return () (h1, v1)"
    and v': "v' = set_pointers (v1\<lparr>m_size := m_size v1 + 1\<rparr>)"
    by (auto simp: push_back_def outcome_iffs)
  from True g have "(if m_array_end v = m_array_range_end v then increase_array (doubled v) (h, v)
          else Return () (h, v)) = Return () (h1, v1)" by simp
  from room_after_growth [OF assms(1,2) this] v' show ?thesis
    by (simp add: inv_defs)
next
  case False
  with assms(3) have v': "v' = set_pointers (v\<lparr>m_size := m_size v + 1\<rparr>)"
    by (auto simp: push_back_def outcome_iffs)
  from False have "(if m_array_end v = m_array_range_end v then increase_array (doubled v) (h, v)
          else Return () (h, v)) = Return () (h, v)" by simp
  from room_after_growth [OF assms(1,2) this] v' assms(1) show ?thesis
    by (simp add: inv_defs)
qed

lemma consistent_emplace_back:
  assumes "consistent v" and "m_capacity v < 2 ^ 30"
    and "emplace_back val (h, v) = Return u (h', v')"
  shows "consistent v'"
proof -
  from assms(3) obtain h1 v1 where
    g: "(if m_array_end v = m_array_range_end v then increase_array (doubled v) (h, v)
          else Return () (h, v)) = Return () (h1, v1)"
    and v': "v' = set_pointers (v1\<lparr>m_size := m_size v1 + 1\<rparr>)"
    by (auto simp: emplace_back_def outcome_iffs)
  from room_after_growth [OF assms(1,2) g] v' show ?thesis
    by (simp add: inv_defs)
qed

lemma consistent_emplace:
  assumes "consistent v" and "m_capacity v < 2 ^ 30"
    and "emplace position val (h, v) = Return it (h', v')"
  shows "consistent v'"
proof -
  from assms(3) obtain h1 v1 where
    g: "(if m_array_end v = m_array_range_end v then increase_array (doubled v) (h, v)
          else Return () (h, v)) = Return () (h1, v1)"
    and v': "v' = set_pointers (v1\<lparr>m_size := m_size v1 + 1\<rparr>)"
    by (auto simp: emplace_def Let_def outcome_iffs)
  from room_after_growth [OF assms(1,2) g] v' show ?thesis
    by (simp add: inv_defs)
qed

lemma consistent_erase:
  assumes "consistent v" and "0 < m_size v" and "m_size v < 2 ^ 64"
    and "erase position (h, v) = Return it (h', v')"
  shows "consistent v'"
proof -
  from assms(4) have "v' = v\<lparr>m_size := size_type_of_int (int (m_size v) - 1)\<rparr>"
    by (auto simp: erase_def Let_def outcome_iffs)
  with assms(1-3) show ?thesis
    by (simp add: size_type_of_int_small) (auto simp add: inv_defs)
qed

lemma consistent_erase_range:
  assumes "consistent v" and "0 \<le> ptr_diff last_it first_it"
    and "ptr_diff last_it first_it \<le> int (m_size v)" and "m_size v < 2 ^ 64"
    and "erase_range first_it last_it (h, v) = Return it (h', v')"
  shows "consistent v'"
proof -
  from assms(5) have "v' = v\<lparr>m_size := size_type_of_int (int (m_size v) - ptr_diff last_it first_it)\<rparr>"
    by (auto simp: erase_range_def Let_def outcome_iffs)
  with assms(1-4) show ?thesis
    by (simp add: size_type_of_int_small) (auto simp add: inv_defs)
qed

text \<open>The bound on the capacity is needed: at capacity \<open>2 ^ 30\<close> the doubled capacity,
  cast to \<^verbatim>\<open>int\<close>, is negative, and \<^verbatim>\<open>std::max\<close> asks for a buffer of one slot.\<close>

lemma doubled_overflows:
  "doubled (members (2 ^ 30) (2 ^ 30) (Ptr (Some 0) 0)) = 1"
  by (simp add: doubled_def members_def static_cast_int_def size_type_of_int_def)

text \<open>
  C9, amended. A container is consistent when its size is at most its capacity (I1), a
  null buffer has capacity 0 (one half of I3), \<^verbatim>\<open>array_start_\<close> is \<^verbatim>\<open>array_\<close>,
  \<^verbatim>\<open>array_range_end_\<close> is \<^verbatim>\<open>array_ + capacity_\<close>, and \<^verbatim>\<open>array_end_\<close> points into the
  buffer, from \<^verbatim>\<open>array_ + size_\<close> to \<^verbatim>\<open>array_ + capacity_\<close>. Every constructor that
  returns builds a consistent container (the copy and the move constructor from a
  consistent one, and the move leaves its argument consistent). Each of these calls, when
  it returns on a consistent container, leaves it consistent: the copy, move and list
  assignment operators (move assignment from a consistent container, which stays so),
  \<^verbatim>\<open>resize(n)\<close> with \<open>n\<close> at most the size, \<^verbatim>\<open>reserve\<close>, \<^verbatim>\<open>shrink_to_fit\<close>, \<^verbatim>\<open>assign\<close>
  of a range and of a count, \<^verbatim>\<open>push_back\<close>, \<^verbatim>\<open>emplace\<close> and \<^verbatim>\<open>emplace_back\<close> with a
  capacity below \<open>2 ^ 30\<close>, \<^verbatim>\<open>pop_back\<close> and \<^verbatim>\<open>erase(position)\<close> with a size above 0 and
  below \<open>2 ^ 64\<close>, \<^verbatim>\<open>erase(first, last)\<close> with \<open>0 \<le> last - first \<le> size < 2 ^ 64\<close>,
  \<^verbatim>\<open>swap\<close> of two consistent containers, and \<^verbatim>\<open>clear\<close>. A buffer of capacity 0 need
  not be null.
\<close>

theorem consistency_kept:
  assumes "consistent v" and "consistent x"
  shows
    "consistent vector_default \<and>
     (vector_n n h = Return w h' \<longrightarrow> consistent w) \<and>
     (vector_fill n val h = Return w h' \<longrightarrow> consistent w) \<and>
     (vector_range xs h = Return w h' \<longrightarrow> consistent w) \<and>
     (vector_il xs h = Return w h' \<longrightarrow> consistent w) \<and>
     (vector_copy x h = Return w h' \<longrightarrow> consistent w) \<and>
     consistent (fst (vector_move x)) \<and> consistent (snd (vector_move x)) \<and>
     (copy_assign x (h, v) = Return u (h', v') \<longrightarrow> consistent v') \<and>
     (move_assign (h, v, x) = Return u (h', v', x') \<longrightarrow> consistent v' \<and> consistent x') \<and>
     (il_assign xs (h, v) = Return u (h', v') \<longrightarrow> consistent v') \<and>
     (n \<le> size_v v \<longrightarrow> resize n (h, v) = Return u (h', v') \<longrightarrow> consistent v') \<and>
     (reserve n (h, v) = Return u (h', v') \<longrightarrow> consistent v') \<and>
     (shrink_to_fit (h, v) = Return u (h', v') \<longrightarrow> consistent v') \<and>
     (assign_range xs (h, v) = Return u (h', v') \<longrightarrow> consistent v') \<and>
     (assign_fill n val (h, v) = Return u (h', v') \<longrightarrow> consistent v') \<and>
     (capacity v < 2 ^ 30 \<longrightarrow> push_back val (h, v) = Return u (h', v') \<longrightarrow> consistent v') \<and>
     (capacity v < 2 ^ 30 \<longrightarrow> emplace position val (h, v) = Return it (h', v') \<longrightarrow> consistent v') \<and>
     (capacity v < 2 ^ 30 \<longrightarrow> emplace_back val (h, v) = Return u (h', v') \<longrightarrow> consistent v') \<and>
     (0 < size_v v \<longrightarrow> size_v v < 2 ^ 64 \<longrightarrow> consistent (snd (pop_back (h, v)))) \<and>
     (0 < size_v v \<longrightarrow> size_v v < 2 ^ 64 \<longrightarrow>
        erase position (h, v) = Return it (h', v') \<longrightarrow> consistent v') \<and>
     (0 \<le> ptr_diff last_it first_it \<longrightarrow> ptr_diff last_it first_it \<le> int (size_v v) \<longrightarrow>
        size_v v < 2 ^ 64 \<longrightarrow>
        erase_range first_it last_it (h, v) = Return it (h', v') \<longrightarrow> consistent v') \<and>
     consistent (fst (swap_v (v, x))) \<and> consistent (snd (swap_v (v, x))) \<and>
     consistent (snd (clear (h, v)))"
proof -
  note v = \<open>consistent v\<close> and x = \<open>consistent x\<close>
  note [simp] = capacity_def size_v_def
  have "vector_n n h = Return w h' \<longrightarrow> consistent w"
    by (intro impI) (erule consistent_vector_n)
  moreover have "vector_fill n val h = Return w h' \<longrightarrow> consistent w"
    by (intro impI) (erule consistent_vector_fill)
  moreover have "vector_range xs h = Return w h' \<longrightarrow> consistent w"
    by (intro impI) (erule consistent_vector_range)
  moreover have "vector_il xs h = Return w h' \<longrightarrow> consistent w"
    by (intro impI) (erule consistent_vector_il)
  moreover have "vector_copy x h = Return w h' \<longrightarrow> consistent w"
    by (intro impI) (erule consistent_vector_copy [OF x])
  moreover have "copy_assign x (h, v) = Return u (h', v') \<longrightarrow> consistent v'"
    by (intro impI) (erule consistent_copy_assign [OF v])
  moreover have "move_assign (h, v, x) = Return u (h', v', x') \<longrightarrow> consistent v' \<and> consistent x'"
    by (intro impI) (erule consistent_move_assign [OF x])
  moreover have "il_assign xs (h, v) = Return u (h', v') \<longrightarrow> consistent v'"
    by (intro impI) (erule consistent_il_assign [OF v])
  moreover have "n \<le> size_v v \<longrightarrow> resize n (h, v) = Return u (h', v') \<longrightarrow> consistent v'"
    using consistent_resize_shrink [OF v, of n h u h' v'] by simp
  moreover have "reserve n (h, v) = Return u (h', v') \<longrightarrow> consistent v'"
    by (intro impI) (erule consistent_reserve [OF v])
  moreover have "shrink_to_fit (h, v) = Return u (h', v') \<longrightarrow> consistent v'"
    by (intro impI) (erule consistent_shrink_to_fit)
  moreover have "assign_range xs (h, v) = Return u (h', v') \<longrightarrow> consistent v'"
    by (intro impI) (erule consistent_assign_range [OF v])
  moreover have "assign_fill n val (h, v) = Return u (h', v') \<longrightarrow> consistent v'"
    by (intro impI) (erule consistent_assign_fill [OF v])
  moreover have "capacity v < 2 ^ 30 \<longrightarrow> push_back val (h, v) = Return u (h', v') \<longrightarrow> consistent v'"
    using consistent_push_back [OF v, of val h u h' v'] by simp
  moreover have "capacity v < 2 ^ 30 \<longrightarrow> emplace position val (h, v) = Return it (h', v') \<longrightarrow> consistent v'"
    using consistent_emplace [OF v, of position val h it h' v'] by simp
  moreover have "capacity v < 2 ^ 30 \<longrightarrow> emplace_back val (h, v) = Return u (h', v') \<longrightarrow> consistent v'"
    using consistent_emplace_back [OF v, of val h u h' v'] by simp
  moreover have "0 < size_v v \<longrightarrow> size_v v < 2 ^ 64 \<longrightarrow> consistent (snd (pop_back (h, v)))"
    using consistent_pop_back [OF v, of h] by simp
  moreover have "0 < size_v v \<longrightarrow> size_v v < 2 ^ 64 \<longrightarrow>
       erase position (h, v) = Return it (h', v') \<longrightarrow> consistent v'"
    using consistent_erase [OF v, of position h it h' v'] by simp
  moreover have "0 \<le> ptr_diff last_it first_it \<longrightarrow> ptr_diff last_it first_it \<le> int (size_v v) \<longrightarrow>
       size_v v < 2 ^ 64 \<longrightarrow>
       erase_range first_it last_it (h, v) = Return it (h', v') \<longrightarrow> consistent v'"
    using consistent_erase_range [OF v, of last_it first_it h it h' v'] by simp
  moreover note consistent_vector_default consistent_vector_move [OF x]
    consistent_swap [OF v x] consistent_clear [OF v, of h]
  ultimately show ?thesis by (simp only: simp_thms)
qed

theorem consistency_kept_witness:
  "consistent (snd (final example_123)) \<and>
   size_v (snd (final example_123)) = 3 \<and>
   capacity (snd (final example_123)) = 3 \<and>
   raised (push_back 4 (final example_123)) = None \<and>
   consistent (snd (final (push_back 4 (final example_123)))) \<and>
   size_v (snd (final (push_back 4 (final example_123)))) = 4 \<and>
   capacity (snd (final (push_back 4 (final example_123)))) = 6 \<and>
   raised (erase_at 1 (final example_123)) = None \<and>
   consistent (snd (final (erase_at 1 (final example_123))))"
proof -
  define h v where "h = fst (final example_123)" and "v = snd (final example_123)"
  have s: "final example_123 = (h, v)"
    by (simp add: h_def v_def)
  have c: "consistent v"
    unfolding v_def by code_simp
  have size: "size_v v = 3" and cap: "capacity v = 3"
    unfolding v_def by code_simp+
  have p: "raised (push_back 4 (final example_123)) = None"
    and e: "raised (erase_at 1 (final example_123)) = None"
    and sizes: "size_v (snd (final (push_back 4 (final example_123)))) = 4"
      "capacity (snd (final (push_back 4 (final example_123)))) = 6"
    by code_simp+
  from p obtain h1 v1 where rp: "push_back 4 (h, v) = Return () (h1, v1)"
    unfolding s by (cases "push_back 4 (h, v)") (auto simp: raised_def)
  from e obtain it h2 v2 where "erase_at 1 (h, v) = Return it (h2, v2)"
    unfolding s by (cases "erase_at 1 (h, v)") (auto simp: raised_def)
  then have re: "erase (ptr_add (cbegin v) (int 1)) (h, v) = Return it (h2, v2)"
    by (simp add: erase_at_def)
  from consistency_kept [OF c c, where h = h and val = 4 and u = "()" and h' = h1 and v' = v1]
  have "capacity v < 2 ^ 30 \<longrightarrow> push_back 4 (h, v) = Return () (h1, v1) \<longrightarrow> consistent v1"
    by blast
  with cap rp have c1: "consistent v1" by simp
  from consistency_kept [OF c c, where h = h and position = "ptr_add (cbegin v) (int 1)"
      and it = it and h' = h2 and v' = v2]
  have "0 < size_v v \<longrightarrow> size_v v < 2 ^ 64 \<longrightarrow>
        erase (ptr_add (cbegin v) (int 1)) (h, v) = Return it (h2, v2) \<longrightarrow> consistent v2"
    by blast
  with size re have c2: "consistent v2" by simp
  have "consistent (snd (final (push_back 4 (final example_123))))"
    unfolding s using rp c1 by (simp add: final_def)
  moreover have "consistent (snd (final (erase_at 1 (final example_123))))"
    unfolding s using \<open>erase_at 1 (h, v) = Return it (h2, v2)\<close> c2 by (simp add: final_def)
  ultimately show ?thesis
    using c size cap p e sizes by (simp add: v_def)
qed

section \<open>Containers with consistent range pointers\<close>

text \<open>
  The calls that lose an element above do so on a container whose \<^verbatim>\<open>array_end_\<close> is
  behind its size. On a consistent container that owns its buffer they behave as their
  comments say; the loops are characterised first.
\<close>

subsection \<open>The loops on live blocks\<close>

lemma store_live:
  "cells h b = Some cs \<Longrightarrow> i < length cs \<Longrightarrow>
     store (Ptr (Some b) (int i)) x h = Return () (h\<lparr>cells := (cells h)(b \<mapsto> cs[i := x])\<rparr>)"
  by (simp add: store_def)

lemma load_live:
  "cells h b = Some cs \<Longrightarrow> i < length cs \<Longrightarrow> load h (Ptr (Some b) (int i)) = Some (cs ! i)"
  by (simp add: load_def)

lemma copy_step_lists:
  assumes "j < length src" "i < length dst"
  shows "take (Suc i) (dst[i := src ! j]) @ take k (drop (Suc j) src) @ drop (Suc (i + k)) (dst[i := src ! j])
           = take i dst @ take (Suc k) (drop j src) @ drop (i + Suc k) dst"
proof -
  from assms have "take (Suc i) (dst[i := src ! j]) = take i dst @ [src ! j]"
    by (simp add: take_Suc_conv_app_nth)
  moreover from assms have "take (Suc k) (drop j src) = src ! j # take k (drop (Suc j) src)"
    by (simp add: Cons_nth_drop_Suc [symmetric])
  moreover have "drop (Suc (i + k)) (dst[i := src ! j]) = drop (Suc (i + k)) dst"
    by simp
  ultimately show ?thesis by simp
qed

lemma construct_loop_copy:
  assumes "cells h bs = Some src" "cells h bd = Some dst" "bs \<noteq> bd"
    and "j + k \<le> length src" "i + k \<le> length dst"
  shows "construct_loop k (int i) (Ptr (Some bs) (int j)) (Ptr (Some bd) 0) h
           = Return () (h\<lparr>cells := (cells h)(bd \<mapsto> take i dst @ take k (drop j src) @ drop (i + k) dst)\<rparr>)"
  using assms
proof (induction k arbitrary: i j h dst)
  case 0
  then have "(cells h)(bd \<mapsto> dst) = cells h" by (auto simp: fun_eq_iff)
  then show ?case by simp
next
  case (Suc k)
  define h1 where "h1 = h\<lparr>cells := (cells h)(bd \<mapsto> dst[i := src ! j])\<rparr>"
  define new where "new = take i dst @ take (Suc k) (drop j src) @ drop (i + Suc k) dst"
  from Suc.prems have j: "j < length src" and i: "i < length dst" by simp_all
  have l: "load h (Ptr (Some bs) (int j)) = Some (src ! j)"
    using Suc.prems(1) j by (rule load_live)
  have s: "store (ptr_add (Ptr (Some bd) 0) (int i)) (src ! j) h = Return () h1"
    using store_live [OF Suc.prems(2) i] by (simp add: ptr_add_def h1_def)
  have step: "construct_loop (Suc k) (int i) (Ptr (Some bs) (int j)) (Ptr (Some bd) 0) h
                = construct_loop k (int (Suc i)) (Ptr (Some bs) (int (Suc j))) (Ptr (Some bd) 0) h1"
    using l s by (simp add: ptr_add_def add.commute)
  have "construct_loop k (int (Suc i)) (Ptr (Some bs) (int (Suc j))) (Ptr (Some bd) 0) h1
          = Return () (h1\<lparr>cells := (cells h1)(bd \<mapsto>
              take (Suc i) (dst[i := src ! j]) @ take k (drop (Suc j) src)
                @ drop (Suc i + k) (dst[i := src ! j]))\<rparr>)"
    using Suc.prems unfolding h1_def by (intro Suc.IH) simp_all
  also have "take (Suc i) (dst[i := src ! j]) @ take k (drop (Suc j) src)
                @ drop (Suc i + k) (dst[i := src ! j]) = new"
    unfolding new_def using copy_step_lists [OF j i, of k] by simp
  also have "h1\<lparr>cells := (cells h1)(bd \<mapsto> new)\<rparr> = h\<lparr>cells := (cells h)(bd \<mapsto> new)\<rparr>"
    by (simp add: h1_def)
  finally show ?case unfolding step new_def .
qed

lemma write_step_lists:
  assumes "p < length dst"
  shows "take (Suc p) (dst[p := y]) @ ys @ drop (Suc p + length ys) (dst[p := y])
           = take p dst @ (y # ys) @ drop (p + Suc (length ys)) dst"
  using assms by (simp add: take_Suc_conv_app_nth)

lemma construct_elements_range_live:
  assumes "cells h bd = Some dst" "d + i + length xs \<le> length dst"
  shows "construct_elements_range xs (int i) (Ptr (Some bd) (int d)) h
           = Return () (h\<lparr>cells := (cells h)(bd \<mapsto>
               take (d + i) dst @ map Live xs @ drop (d + i + length xs) dst)\<rparr>)"
  using assms
proof (induction xs arbitrary: i h dst)
  case Nil
  then have "(cells h)(bd \<mapsto> dst) = cells h" by (auto simp: fun_eq_iff)
  then show ?case by simp
next
  case (Cons x xs)
  define h1 where "h1 = h\<lparr>cells := (cells h)(bd \<mapsto> dst[d + i := Live x])\<rparr>"
  define new where "new = take (d + i) dst @ map Live (x # xs) @ drop (d + i + length (x # xs)) dst"
  from Cons.prems have p: "d + i < length dst" by simp
  have s: "construct (ptr_add (Ptr (Some bd) (int d)) (int i)) x h = Return () h1"
    using store_live [OF Cons.prems(1) p] by (simp add: ptr_add_def h1_def construct_def)
  have step: "construct_elements_range (x # xs) (int i) (Ptr (Some bd) (int d)) h
                = construct_elements_range xs (int (Suc i)) (Ptr (Some bd) (int d)) h1"
    using s by (simp add: add.commute)
  have "construct_elements_range xs (int (Suc i)) (Ptr (Some bd) (int d)) h1
          = Return () (h1\<lparr>cells := (cells h1)(bd \<mapsto>
              take (d + Suc i) (dst[d + i := Live x]) @ map Live xs
                @ drop (d + Suc i + length xs) (dst[d + i := Live x]))\<rparr>)"
    using Cons.prems unfolding h1_def by (intro Cons.IH) simp_all
  also have "take (d + Suc i) (dst[d + i := Live x]) @ map Live xs
                @ drop (d + Suc i + length xs) (dst[d + i := Live x]) = new"
    unfolding new_def using write_step_lists [OF p, of "Live x" "map Live xs"] by simp
  also have "h1\<lparr>cells := (cells h1)(bd \<mapsto> new)\<rparr> = h\<lparr>cells := (cells h)(bd \<mapsto> new)\<rparr>"
    by (simp add: h1_def)
  finally show ?case unfolding step new_def .
qed

lemma construct_fill_loop_live:
  assumes "cells h bd = Some dst" "d + i + k \<le> length dst"
  shows "construct_fill_loop k (int i) (Ptr (Some bd) (int d)) val h
           = Return () (h\<lparr>cells := (cells h)(bd \<mapsto>
               take (d + i) dst @ replicate k (Live val) @ drop (d + i + k) dst)\<rparr>)"
  using assms
proof (induction k arbitrary: i h dst)
  case 0
  then have "(cells h)(bd \<mapsto> dst) = cells h" by (auto simp: fun_eq_iff)
  then show ?case by simp
next
  case (Suc k)
  define h1 where "h1 = h\<lparr>cells := (cells h)(bd \<mapsto> dst[d + i := Live val])\<rparr>"
  define new where "new = take (d + i) dst @ replicate (Suc k) (Live val) @ drop (d + i + Suc k) dst"
  from Suc.prems have p: "d + i < length dst" by simp
  have s: "construct (ptr_add (Ptr (Some bd) (int d)) (int i)) val h = Return () h1"
    using store_live [OF Suc.prems(1) p] by (simp add: ptr_add_def h1_def construct_def)
  have step: "construct_fill_loop (Suc k) (int i) (Ptr (Some bd) (int d)) val h
                = construct_fill_loop k (int (Suc i)) (Ptr (Some bd) (int d)) val h1"
    using s by (simp add: add.commute)
  have "construct_fill_loop k (int (Suc i)) (Ptr (Some bd) (int d)) val h1
          = Return () (h1\<lparr>cells := (cells h1)(bd \<mapsto>
              take (d + Suc i) (dst[d + i := Live val]) @ replicate k (Live val)
                @ drop (d + Suc i + k) (dst[d + i := Live val]))\<rparr>)"
    using Suc.prems unfolding h1_def by (intro Suc.IH) simp_all
  also have "take (d + Suc i) (dst[d + i := Live val]) @ replicate k (Live val)
                @ drop (d + Suc i + k) (dst[d + i := Live val]) = new"
    unfolding new_def using write_step_lists [OF p, of "Live val" "replicate k (Live val)"] by simp
  also have "h1\<lparr>cells := (cells h1)(bd \<mapsto> new)\<rparr> = h\<lparr>cells := (cells h)(bd \<mapsto> new)\<rparr>"
    by (simp add: h1_def)
  finally show ?case unfolding step new_def .
qed

lemma destroy_fresh [simp]: "fresh (destroy p h) = fresh h"
  by (auto simp: destroy_def store_def split: option.splits)

lemma destroy_loop_fresh [simp]: "fresh (destroy_loop k i start h) = fresh h"
  by (induction k arbitrary: i h) simp_all

lemma destroy_null: "blk p = None \<Longrightarrow> destroy p h = h"
  by (simp add: destroy_def store_def)

lemma destroy_loop_null: "blk start = None \<Longrightarrow> destroy_loop k i start h = h"
  by (induction k arbitrary: i h) (simp_all add: destroy_null)

lemma destroy_loop_live:
  "cells h b = Some cs \<Longrightarrow> \<exists>cs'. cells (destroy_loop k i start h) b = Some cs'"
  using destroy_loop_cells_length [of k i start h b]
  by (cases "cells (destroy_loop k i start h) b") auto

text \<open>What \<^verbatim>\<open>increase_array\<close> leaves in the new buffer.\<close>

lemma increase_array_result:
  assumes own: "owns h v"
    and known: "case blk (m_array v) of None \<Rightarrow> True | Some b \<Rightarrow> b < fresh h"
    and blk_end: "blk (m_array_end v) = blk (m_array v)"
    and lo: "0 \<le> off (m_array_end v)" and hi: "off (m_array_end v) \<le> int (m_capacity v)"
    and room: "n \<le> avail h"
  shows "\<exists>h'. increase_array n (h, v)
             = Return () (h', set_pointers (v\<lparr>m_array := Ptr (Some (fresh h)) 0, m_capacity := n\<rparr>)) \<and>
           fresh h' = Suc (fresh h) \<and>
           (\<forall>b. b \<noteq> fresh h \<and> blk (m_array v) \<noteq> Some b \<longrightarrow> cells h' b = cells h b) \<and>
           (\<exists>new. cells h' (fresh h) = Some new \<and> length new = n \<and>
              (\<forall>t. int t < off (m_array_end v) \<and> t < n \<longrightarrow>
                 Some (new ! t) = load h (ptr_add (m_array v) (int t))))"
proof -
  define h1 where "h1 = h\<lparr>cells := (cells h)(fresh h \<mapsto> replicate n Raw),
                fresh := Suc (fresh h), avail := avail h - n\<rparr>"
  define k where "k = nat (min (off (m_array_end v)) (int n))"
  from room have alloc: "allocate n h = Return (Ptr (Some (fresh h)) 0) h1"
    by (simp add: allocate_def h1_def)
  from own have start: "m_array_start v = m_array v" and off0: "off (m_array v) = 0"
    by (simp_all add: owns_def)
  have arr: "m_array v = Ptr (blk (m_array v)) 0"
    using off0 by (cases "m_array v") simp
  have endp: "m_array_end v = Ptr (blk (m_array v)) (off (m_array_end v))"
    using blk_end by (cases "m_array_end v") simp
  have count: "nat (ptr_diff (ptr_min (end_v v) (ptr_add (begin_v v) (int n))) (begin_v v)) = k"
    using lo by (simp add: ptr_diff_def ptr_min_def ptr_less_def begin_v_def end_v_def start off0 k_def min_def)
  show ?thesis
  proof (cases "blk (m_array v)")
    case None
    with own have "m_capacity v = 0" by (simp add: owns_def)
    with lo hi have e0: "off (m_array_end v) = 0" by simp
    then have k0: "k = 0" by (simp add: k_def)
    have "increase_array n (h, v)
            = Return () (h1, set_pointers (v\<lparr>m_array := Ptr (Some (fresh h)) 0, m_capacity := n\<rparr>))"
      using None count k0
      by (simp add: increase_array_def alloc construct_elements_def destroy_elements_def
          destroy_loop_null deallocate_def)
    moreover have "fresh h1 = Suc (fresh h)" by (simp add: h1_def)
    moreover have "\<forall>b. b \<noteq> fresh h \<and> blk (m_array v) \<noteq> Some b \<longrightarrow> cells h1 b = cells h b"
      by (simp add: h1_def)
    moreover have "cells h1 (fresh h) = Some (replicate n Raw)" by (simp add: h1_def)
    ultimately show ?thesis using e0 by auto
  next
    case (Some bs)
    with own obtain src where src: "cells h bs = Some src" and len: "length src = m_capacity v"
      by (auto simp: owns_def split: option.splits)
    from Some known have ne: "bs \<noteq> fresh h" by auto
    define new where "new = take 0 (replicate n Raw) @ take k (drop 0 src) @ drop (0 + k) (replicate n Raw)"
    define h2 where "h2 = h1\<lparr>cells := (cells h1)(fresh h \<mapsto> new)\<rparr>"
    have k_src: "k \<le> length src" using hi len by (simp add: k_def)
    have k_n: "k \<le> n" by (simp add: k_def)
    have "construct_loop k (int 0) (Ptr (Some bs) (int 0)) (Ptr (Some (fresh h)) 0) h1 = Return () h2"
      unfolding h2_def new_def
      by (rule construct_loop_copy) (use src ne k_src k_n in \<open>simp_all add: h1_def\<close>)
    then have copy: "construct_elements (begin_v v)
        (ptr_min (end_v v) (ptr_add (begin_v v) (int n))) (Ptr (Some (fresh h)) 0) h1 = Return () h2"
      unfolding construct_elements_def count using arr Some by (simp add: begin_v_def start)
    define h2d where "h2d = destroy_elements (m_array v) (m_size v) h2"
    have src2: "cells h2 bs = Some src" using src ne by (simp add: h2_def h1_def)
    then obtain cs' where live: "cells h2d bs = Some cs'"
      unfolding h2d_def destroy_elements_def using destroy_loop_live by blast
    define h3 where "h3 = h2d\<lparr>cells := (cells h2d)(bs := None), avail := avail h2d + length cs'\<rparr>"
    have dealloc: "deallocate (m_array v) (m_capacity v) h2d = Return () h3"
      using Some off0 live by (simp add: deallocate_def h3_def)
    have run: "increase_array n (h, v)
            = Return () (h3, set_pointers (v\<lparr>m_array := Ptr (Some (fresh h)) 0, m_capacity := n\<rparr>))"
      by (simp add: increase_array_def alloc copy dealloc [unfolded h2d_def])
    have other: "cells h2d b = cells h2 b" if "b \<noteq> bs" for b
      unfolding h2d_def destroy_elements_def using that Some
      by (intro destroy_loop_cells_other) simp
    have "fresh h3 = Suc (fresh h)"
      by (simp add: h3_def h2d_def destroy_elements_def h2_def h1_def)
    moreover have "\<forall>b. b \<noteq> fresh h \<and> blk (m_array v) \<noteq> Some b \<longrightarrow> cells h3 b = cells h b"
      using Some by (simp add: h3_def other h2_def h1_def)
    moreover have "cells h3 (fresh h) = Some new"
      using ne other [of "fresh h"] by (simp add: h3_def h2_def)
    moreover have "length new = n" using k_src k_n by (simp add: new_def)
    moreover have "Some (new ! t) = load h (ptr_add (m_array v) (int t))"
      if "int t < off (m_array_end v)" "t < n" for t
    proof -
      from that have tk: "t < k" by (simp add: k_def)
      with k_src have "load h (Ptr (Some bs) (int t)) = Some (src ! t)"
        using src by (intro load_live) simp_all
      moreover from tk k_src have "new ! t = src ! t"
        by (simp add: new_def nth_append)
      ultimately show ?thesis using Some off0 by (simp add: ptr_add_def)
    qed
    ultimately show ?thesis using run by blast
  qed
qed

lemma length_elements [simp]: "length (elements h v) = m_size v"
  by (simp add: elements_def size_v_def)

lemma nth_elements:
  "t < m_size v \<Longrightarrow> elements h v ! t = load h (ptr_add (m_array_start v) (int t))"
  by (simp add: elements_def size_v_def subscript_def)

lemma consistent_end_within:
  "consistent v \<Longrightarrow>
     blk (m_array_end v) = blk (m_array v) \<and> 0 \<le> off (m_array_end v) \<and>
     off (m_array_end v) \<le> int (m_capacity v) \<and> int (m_size v) \<le> off (m_array_end v)"
  by (auto simp: consistent_def range_pointers_def)

lemma load_new_block:
  "cells h b = Some cs \<Longrightarrow> t < length cs \<Longrightarrow> load h (ptr_add (Ptr (Some b) 0) (int t)) = Some (cs ! t)"
  by (simp add: ptr_add_def load_live)


subsection \<open>Reserving, assigning and copying\<close>

text \<open>\<^verbatim>\<open>reserve(n)\<close> on a consistent container returns (given the memory), keeps the
  size and every element, reaches the capacity \<open>n\<close>, and does nothing at all when the
  capacity suffices.\<close>

theorem reserve_on_consistent:
  assumes "owns h v" and "known h v" and "consistent v"
    and "n \<le> capacity v \<or> n \<le> avail h"
  shows "raised (reserve n (h, v)) = None \<and>
         size_v (snd (final (reserve n (h, v)))) = size_v v \<and>
         n \<le> capacity (snd (final (reserve n (h, v)))) \<and>
         elements (fst (final (reserve n (h, v)))) (snd (final (reserve n (h, v)))) = elements h v \<and>
         (n \<le> capacity v \<longrightarrow> final (reserve n (h, v)) = (h, v))"
proof (cases "n \<le> m_capacity v")
  case True
  then show ?thesis
    by (simp add: reserve_def raised_def final_def capacity_def)
next
  case False
  with assms(4) have room: "n \<le> avail h" by (simp add: capacity_def)
  note e = consistent_end_within [OF assms(3)]
  let ?v' = "set_pointers (v\<lparr>m_array := Ptr (Some (fresh h)) 0, m_capacity := n\<rparr>)"
  from increase_array_result [OF assms(1) assms(2) [unfolded known_def] _ _ _ room] e
  obtain h' new where run: "increase_array n (h, v) = Return () (h', ?v')"
    and new: "cells h' (fresh h) = Some new" "length new = n"
    and old: "\<And>t. int t < off (m_array_end v) \<Longrightarrow> t < n \<Longrightarrow>
                 Some (new ! t) = load h (ptr_add (m_array v) (int t))"
    by blast
  from assms(1) have start: "m_array_start v = m_array v" by (simp add: owns_def)
  from assms(3) have sz: "m_size v \<le> m_capacity v" by (simp add: consistent_def I1_def size_v_def capacity_def)
  have "elements h' ?v' = elements h v"
  proof (rule nth_equalityI)
    fix t assume "t < length (elements h' ?v')"
    then have t: "t < m_size v" by (simp add: set_pointers_def)
    with sz False have tn: "t < n" by simp
    from t e have te: "int t < off (m_array_end v)" by simp
    have "elements h' ?v' ! t = Some (new ! t)"
      using t tn new by (simp add: nth_elements set_pointers_def load_new_block)
    also have "\<dots> = elements h v ! t"
      using old [OF te tn] t by (simp add: nth_elements start)
    finally show "elements h' ?v' ! t = elements h v ! t" .
  qed (simp add: set_pointers_def)
  with run False show ?thesis
    by (simp add: reserve_def raised_def final_def capacity_def size_v_def set_pointers_def)
qed

text \<open>Copy assignment from a container whose \<^verbatim>\<open>array_end_\<close> is \<^verbatim>\<open>array_ + size_\<close>, into
  another one with room for its elements, keeps buffer and capacity of the target and
  copies size and elements.\<close>

theorem copy_assign_from_current:
  assumes "owns h a" and "owns h b" and "separate a b"
    and "m_array_end b = ptr_add (m_array b) (int (size_v b))" and "I1 b"
    and "size_v b \<le> capacity a"
  shows "raised (copy_assign b (h, a)) = None \<and>
         data_v (snd (final (copy_assign b (h, a)))) = data_v a \<and>
         capacity (snd (final (copy_assign b (h, a)))) = capacity a \<and>
         size_v (snd (final (copy_assign b (h, a)))) = size_v b \<and>
         elements (fst (final (copy_assign b (h, a)))) (snd (final (copy_assign b (h, a))))
           = elements h b"
proof -
  let ?a' = "set_pointers (a\<lparr>m_size := m_size b\<rparr>)"
  from assms(1) have sa: "m_array_start a = m_array a" and oa: "off (m_array a) = 0"
    by (simp_all add: owns_def)
  from assms(2) have sb: "m_array_start b = m_array b" and ob: "off (m_array b) = 0"
    by (simp_all add: owns_def)
  from assms(6) have fits: "m_size b \<le> m_capacity a" by (simp add: size_v_def capacity_def)
  from assms(5) have sz: "m_size b \<le> m_capacity b" by (simp add: I1_def size_v_def capacity_def)
  have count: "nat (ptr_diff (cend b) (cbegin b)) = m_size b"
    using assms(4) by (simp add: cend_def cbegin_def sb ptr_diff_def ptr_add_def size_v_def)
  have branch: "copy_assign b (h, a)
      = lift ?a' (construct_loop (m_size b) 0 (m_array b) (m_array a) h)"
    using fits by (simp add: copy_assign_def Let_def size_v_def construct_elements_def count)
       (simp add: cbegin_def sb set_pointers_def)
  show ?thesis
  proof (cases "m_size b = 0")
    case True
    then have "elements h ?a' = elements h b"
      by (intro nth_equalityI) (simp_all add: set_pointers_def)
    with True branch show ?thesis
      by (simp add: raised_def final_def data_v_def capacity_def size_v_def set_pointers_def)
  next
    case False
    with sz assms(2) obtain bb src where bb: "blk (m_array b) = Some bb"
      and src: "cells h bb = Some src" "length src = m_capacity b"
      by (auto simp: owns_def split: option.splits)
    from False fits assms(1) obtain ba dst where ba: "blk (m_array a) = Some ba"
      and dst: "cells h ba = Some dst" "length dst = m_capacity a"
      by (auto simp: owns_def split: option.splits)
    from assms(3) ba bb have ne: "bb \<noteq> ba" by (auto simp: separate_def)
    have pa: "m_array a = Ptr (Some ba) 0" using ba oa by (cases "m_array a") simp
    have pb: "m_array b = Ptr (Some bb) (int 0)" using bb ob by (cases "m_array b") simp
    define new where "new = take 0 dst @ take (m_size b) (drop 0 src) @ drop (0 + m_size b) dst"
    define h' where "h' = h\<lparr>cells := (cells h)(ba \<mapsto> new)\<rparr>"
    have "construct_loop (m_size b) (int 0) (Ptr (Some bb) (int 0)) (Ptr (Some ba) 0) h = Return () h'"
      unfolding h'_def new_def
      by (rule construct_loop_copy) (use src dst ne sz fits in simp_all)
    with branch have res: "copy_assign b (h, a) = Return () (h', ?a')"
      by (simp add: pa pb)
    have "elements h' ?a' = elements h b"
    proof (rule nth_equalityI)
      fix t assume "t < length (elements h' ?a')"
      then have t: "t < m_size b" by (simp add: set_pointers_def)
      have cells': "cells h' ba = Some new" by (simp add: h'_def)
      have lnew: "length new = m_capacity a" using sz fits src dst by (simp add: new_def)
      have "elements h' ?a' ! t = Some (new ! t)"
        using t fits load_new_block [OF cells', of t] lnew
        by (simp add: nth_elements set_pointers_def pa)
      also have "new ! t = src ! t"
        using t sz src by (simp add: new_def nth_append)
      also have "Some (src ! t) = elements h b ! t"
        using t sz src by (simp add: nth_elements sb pb [simplified] load_new_block)
      finally show "elements h' ?a' ! t = elements h b ! t" .
    qed (simp add: set_pointers_def)
    with res show ?thesis
      by (simp add: raised_def final_def data_v_def capacity_def size_v_def set_pointers_def)
  qed
qed

lemma write_range_elements:
  assumes "cells h b = Some dst" and "length xs \<le> length dst"
  shows "\<exists>h'. construct_elements_range xs 0 (Ptr (Some b) 0) h = Return () h' \<and>
           (\<forall>v'. m_array_start v' = Ptr (Some b) 0 \<and> m_size v' = length xs \<longrightarrow>
                 elements h' v' = map (\<lambda>x. Some (Live x)) xs)"
proof -
  define new where "new = take (0 + 0) dst @ map Live xs @ drop (0 + 0 + length xs) dst"
  define h' where "h' = h\<lparr>cells := (cells h)(b \<mapsto> new)\<rparr>"
  have "construct_elements_range xs (int 0) (Ptr (Some b) (int 0)) h = Return () h'"
    unfolding h'_def new_def by (rule construct_elements_range_live) (use assms in simp_all)
  moreover have "elements h' v' = map (\<lambda>x. Some (Live x)) xs"
    if "m_array_start v' = Ptr (Some b) 0" "m_size v' = length xs" for v'
  proof (rule nth_equalityI)
    fix t assume "t < length (elements h' v')"
    with that have t: "t < length xs" by simp
    have c: "cells h' b = Some new" by (simp add: h'_def)
    have "t < length new" using t assms by (simp add: new_def)
    from load_new_block [OF c this] t that
    show "elements h' v' ! t = map (\<lambda>x. Some (Live x)) xs ! t"
      by (simp add: nth_elements new_def nth_append)
  qed (use that in simp)
  ultimately show ?thesis by auto
qed

lemma write_fill_elements:
  assumes "cells h b = Some dst" and "n \<le> length dst"
  shows "\<exists>h'. construct_elements_fill (Ptr (Some b) 0) n val h = Return () h' \<and>
           (\<forall>v'. m_array_start v' = Ptr (Some b) 0 \<and> m_size v' = n \<longrightarrow>
                 elements h' v' = replicate n (Some (Live val)))"
proof -
  define new where "new = take (0 + 0) dst @ replicate n (Live val) @ drop (0 + 0 + n) dst"
  define h' where "h' = h\<lparr>cells := (cells h)(b \<mapsto> new)\<rparr>"
  have "construct_fill_loop n (int 0) (Ptr (Some b) (int 0)) val h = Return () h'"
    unfolding h'_def new_def by (rule construct_fill_loop_live) (use assms in simp_all)
  then have "construct_elements_fill (Ptr (Some b) 0) n val h = Return () h'"
    by (simp add: construct_elements_fill_def)
  moreover have "elements h' v' = replicate n (Some (Live val))"
    if "m_array_start v' = Ptr (Some b) 0" "m_size v' = n" for v'
  proof (rule nth_equalityI)
    fix t assume "t < length (elements h' v')"
    with that have t: "t < n" by simp
    have c: "cells h' b = Some new" by (simp add: h'_def)
    have "t < length new" using t assms by (simp add: new_def)
    from load_new_block [OF c this] t that
    show "elements h' v' ! t = replicate n (Some (Live val)) ! t"
      by (simp add: nth_elements new_def nth_append)
  qed (use that in simp)
  ultimately show ?thesis by auto
qed

lemma owned_block:
  assumes "owns h v" and "0 < m_capacity v"
  shows "\<exists>b dst. m_array v = Ptr (Some b) 0 \<and> m_array_start v = Ptr (Some b) 0 \<and>
           cells h b = Some dst \<and> length dst = m_capacity v"
proof -
  from assms obtain b dst where "blk (m_array v) = Some b" "cells h b = Some dst"
    "length dst = m_capacity v" "off (m_array v) = 0" "m_array_start v = m_array v"
    by (auto simp: owns_def split: option.splits)
  then show ?thesis by (cases "m_array v") auto
qed


text \<open>The iterator-range form and the count form of \<^verbatim>\<open>assign\<close> store the assigned
  sequence, with or without a new buffer.\<close>

theorem assign_range_stores_sequence:
  assumes "owns h v" and "known h v" and "consistent v"
    and "length xs \<le> capacity v \<or> length xs \<le> avail h"
  shows "raised (assign_range xs (h, v)) = None \<and>
         size_v (snd (final (assign_range xs (h, v)))) = length xs \<and>
         elements (fst (final (assign_range xs (h, v)))) (snd (final (assign_range xs (h, v))))
           = map (\<lambda>x. Some (Live x)) xs"
proof (cases "length xs \<le> m_capacity v")
  case True
  show ?thesis
  proof (cases "xs = []")
    case True
    then show ?thesis
      by (simp add: assign_range_def raised_def final_def size_v_def set_pointers_def elements_def)
  next
    case False
    with True have "0 < m_capacity v" by (cases xs) auto
    from owned_block [OF assms(1) this] obtain b dst where
      b: "m_array_start v = Ptr (Some b) 0" "cells h b = Some dst" "length dst = m_capacity v"
      by blast
    from write_range_elements [OF b(2), of xs] True b(3) obtain h' where
      w: "construct_elements_range xs 0 (Ptr (Some b) 0) h = Return () h'"
      and el: "\<And>v'. m_array_start v' = Ptr (Some b) 0 \<Longrightarrow> m_size v' = length xs \<Longrightarrow>
                 elements h' v' = map (\<lambda>x. Some (Live x)) xs"
      by auto
    let ?v' = "set_pointers (v\<lparr>m_size := length xs\<rparr>)"
    from assms(1) have "m_array v = m_array_start v" by (simp add: owns_def)
    with b(1) have "m_array_start ?v' = Ptr (Some b) 0" "m_size ?v' = length xs"
      by (simp_all add: set_pointers_def)
    from el [OF this] True w b(1) show ?thesis
      by (simp add: assign_range_def raised_def final_def size_v_def set_pointers_def)
  qed
next
  case False
  with assms(4) have room: "length xs \<le> avail h" by (simp add: capacity_def)
  note e = consistent_end_within [OF assms(3)]
  let ?v0 = "v\<lparr>m_size := length xs\<rparr>"
  have own0: "owns h ?v0" using assms(1) by (auto simp add: owns_def split: option.splits)
  have known0: "case blk (m_array ?v0) of None \<Rightarrow> True | Some b \<Rightarrow> b < fresh h"
    using assms(2) by (simp add: known_def)
  define v1 where "v1 = set_pointers (?v0\<lparr>m_array := Ptr (Some (fresh h)) 0, m_capacity := length xs\<rparr>)"
  from increase_array_result [OF own0 known0 _ _ _ room] e
  obtain h1 new where run: "increase_array (length xs) (h, ?v0) = Return () (h1, v1)"
    and new: "cells h1 (fresh h) = Some new" "length new = length xs"
    unfolding v1_def by auto
  from write_range_elements [OF new(1), of xs] new(2) obtain h2 where
    w: "construct_elements_range xs 0 (Ptr (Some (fresh h)) 0) h1 = Return () h2"
    and el: "\<And>v'. m_array_start v' = Ptr (Some (fresh h)) 0 \<Longrightarrow> m_size v' = length xs \<Longrightarrow>
               elements h2 v' = map (\<lambda>x. Some (Live x)) xs"
    by auto
  have s1: "m_array_start v1 = Ptr (Some (fresh h)) 0" "m_size v1 = length xs"
    by (simp_all add: v1_def set_pointers_def)
  then have s2: "m_array_start (set_pointers v1) = Ptr (Some (fresh h)) 0" "m_size (set_pointers v1) = length xs"
    by (simp_all add: v1_def set_pointers_def)
  from el [OF s2] False run w s1 s2 show ?thesis
    by (simp add: assign_range_def raised_def final_def size_v_def)
qed


theorem assign_fill_stores_sequence:
  assumes "owns h v" and "known h v" and "consistent v"
    and "n \<le> capacity v \<or> n \<le> avail h"
  shows "raised (assign_fill n val (h, v)) = None \<and>
         size_v (snd (final (assign_fill n val (h, v)))) = n \<and>
         elements (fst (final (assign_fill n val (h, v)))) (snd (final (assign_fill n val (h, v))))
           = replicate n (Some (Live val))"
proof (cases "n \<le> m_capacity v")
  case True
  show ?thesis
  proof (cases "n = 0")
    case True
    then show ?thesis
      by (simp add: assign_fill_def raised_def final_def size_v_def set_pointers_def elements_def
          construct_elements_fill_def)
  next
    case False
    with True have "0 < m_capacity v" by simp
    from owned_block [OF assms(1) this] obtain b dst where
      b: "m_array v = Ptr (Some b) 0" "cells h b = Some dst" "length dst = m_capacity v"
      by blast
    from write_fill_elements [OF b(2), of n val] True b(3) obtain h' where
      w: "construct_elements_fill (Ptr (Some b) 0) n val h = Return () h'"
      and el: "\<And>v'. m_array_start v' = Ptr (Some b) 0 \<Longrightarrow> m_size v' = n \<Longrightarrow>
                 elements h' v' = replicate n (Some (Live val))"
      by auto
    let ?v' = "set_pointers (v\<lparr>m_size := n\<rparr>)"
    from b(1) have "m_array_start ?v' = Ptr (Some b) 0" "m_size ?v' = n"
      by (simp_all add: set_pointers_def)
    from el [OF this] True w b(1) show ?thesis
      by (simp add: assign_fill_def raised_def final_def size_v_def set_pointers_def)
  qed
next
  case False
  with assms(4) have room: "n \<le> avail h" by (simp add: capacity_def)
  note e = consistent_end_within [OF assms(3)]
  let ?v0 = "v\<lparr>m_size := n\<rparr>"
  have own0: "owns h ?v0" using assms(1) by (auto simp add: owns_def split: option.splits)
  have known0: "case blk (m_array ?v0) of None \<Rightarrow> True | Some b \<Rightarrow> b < fresh h"
    using assms(2) by (simp add: known_def)
  define v1 where "v1 = set_pointers (?v0\<lparr>m_array := Ptr (Some (fresh h)) 0, m_capacity := n\<rparr>)"
  from increase_array_result [OF own0 known0 _ _ _ room] e
  obtain h1 new where run: "increase_array n (h, ?v0) = Return () (h1, v1)"
    and new: "cells h1 (fresh h) = Some new" "length new = n"
    unfolding v1_def by auto
  from write_fill_elements [OF new(1), of n val] new(2) obtain h2 where
    w: "construct_elements_fill (Ptr (Some (fresh h)) 0) n val h1 = Return () h2"
    and el: "\<And>v'. m_array_start v' = Ptr (Some (fresh h)) 0 \<Longrightarrow> m_size v' = n \<Longrightarrow>
               elements h2 v' = replicate n (Some (Live val))"
    by auto
  have s1: "m_array v1 = Ptr (Some (fresh h)) 0" "m_size v1 = n"
    by (simp_all add: v1_def set_pointers_def)
  then have s2: "m_array_start (set_pointers v1) = Ptr (Some (fresh h)) 0" "m_size (set_pointers v1) = n"
    by (simp_all add: v1_def set_pointers_def)
  from el [OF s2] False run w s1 s2 show ?thesis
    by (simp add: assign_fill_def raised_def final_def size_v_def)
qed

text \<open>The first example container meets the assumptions of these theorems.\<close>

lemma example_123_consistent:
  "owns (fst (final example_123)) (snd (final example_123)) \<and>
   known (fst (final example_123)) (snd (final example_123)) \<and>
   consistent (snd (final example_123))"
  by code_simp

end
